theory Spec2Isabelle
  imports Complex_Main
begin

chapter \<open>MWALIMU HOMES: invoice lifecycle and payment matching\<close>

text \<open>
  A shallow embedding of the invoice generation module (\<^verbatim>\<open>generateMonthlyInvoices\<close>,
  \<^verbatim>\<open>finalizePendingInvoices\<close>) and of the payment matching module
  (\<^verbatim>\<open>normalizePhoneNumber\<close>, \<^verbatim>\<open>calculateSimilarity\<close>, \<^verbatim>\<open>getEditDistance\<close>,
  \<^verbatim>\<open>autoMatchPaymentToTenant\<close>, \<^verbatim>\<open>parseCSVPayments\<close>), together with the tables of
  the schema they read and write.

  Conventions.
  \<^item> A table is the list of its rows in insertion order. The columns the storage engine
    fills in by itself (auto-increment ids of invoices and pending invoices, createdAt,
    updatedAt) and the columns no function here reads are left out.
  \<^item> A row holds what a select returns from it. The amount columns are
    \<^verbatim>\<open>decimal(10,2)\<close>: the text of a Number handed to one is rounded to two fraction
    digits, half away from zero, and the insert is rejected when the result does not fit
    the column or the text is no number (the server's default strict mode). A text that was
    read from an amount column, and the literal \<^verbatim>\<open>"0.00"\<close>, are in the form of the
    column already and go into an amount column as they are.
  \<^item> A storage statement either takes effect completely or throws and changes nothing.
    Which statement throws is an input: a map from the position of the statement in the
    function body to the message of the error it raises.
  \<^item> A JavaScript string is a \<^typ>\<open>string\<close>; a Number is a rational that is a binary64
    value, or one of the three non-finite values.
\<close>

section \<open>Values of the run-time\<close>

datatype js_number = NaN | PosInfinity | NegInfinity | Finite rat

text \<open>
  An amount as the code holds it and hands it to the storage layer: either a string (read
  from a row, or the literal \<^verbatim>\<open>"0.00"\<close>), or the result of \<^verbatim>\<open>x.toString()\<close> on a
  Number, kept as the Number it prints.
\<close>

datatype js_text = Str string | NumberToString js_number

text \<open>What a function returns: nothing (a bare \<^verbatim>\<open>return;\<close>), the success object with
  its payload, or the failure object with the error message.\<close>

datatype 'a js_result = Undefined | Success 'a | Failure string

type_synonym time_value = int

type_synonym faults = "nat \<rightharpoonup> string"

section \<open>Schema\<close>

datatype lease_status = active | terminated | expired

datatype log_status = pending_review | finalized | failed

datatype invoice_status = unpaid | partially_paid | fully_paid | overdue

record Lease =
  lease_id :: int
  monthlyRent :: string
  serviceCharge :: string
  lease_state :: lease_status

record InvoiceLines =
  leaseId :: int
  invoiceNumber :: string
  invoiceDate :: time_value
  dueDate :: time_value
  periodStart :: time_value
  periodEnd :: time_value
  rentAmount :: js_text
  serviceChargeAmount :: js_text
  utilitiesAmount :: js_text
  totalAmount :: js_text
  invoice_notes :: string

record PendingInvoice = InvoiceLines +
  generationLogId :: int

record Invoice = InvoiceLines +
  paidAmount :: js_text
  status :: invoice_status

record GenerationLog =
  log_id :: int
  invoicesGenerated :: nat
  propertiesAffected :: nat
  log_state :: log_status
  details :: string

record Tenant =
  tenant_id :: int
  firstName :: string
  lastName :: string
  phone :: string

record database =
  leases :: "Lease list"
  pendingInvoices :: "PendingInvoice list"
  invoices :: "Invoice list"
  invoiceGenerationLogs :: "GenerationLog list"
  tenants :: "Tenant list"

section \<open>Printing integers\<close>

text \<open>\<^verbatim>\<open>String(n)\<close> and template interpolation of an integer Number: decimal digits,
  a leading minus sign for negative values.\<close>

definition digit_char :: "int \<Rightarrow> char" where
  "digit_char d = char_of (48 + d)"

function digits_of :: "int \<Rightarrow> string" where
  "digits_of n = (if n < 10 then [digit_char n] else digits_of (n div 10) @ [digit_char (n mod 10)])"
  by pat_completeness auto
termination
  by (relation "measure nat") auto

declare digits_of.simps [simp del]

definition String_of_int :: "int \<Rightarrow> string" where
  "String_of_int n = (if n < 0 then CHR ''-'' # digits_of (- n) else digits_of n)"

section \<open>Numbers\<close>

text \<open>
  Binary64 arithmetic. A finite double is the rational it denotes (the two zeros are one
  value). \<open>round_double\<close> is round-to-nearest, ties-to-even, with 53 significant bits and the
  exponent held at the subnormal level below \<open>2 powi (- 1022)\<close>; \<open>to_number\<close> adds the
  overflow to an infinity, from \<open>2 powi 1024\<close> on.
\<close>

text \<open>The number of binary digits of a positive integer.\<close>

function bit_length :: "int \<Rightarrow> int" where
  "bit_length n = (if n \<le> 0 then 0 else 1 + bit_length (n div 2))"
  by pat_completeness auto
termination
  by (relation "measure nat") auto

declare bit_length.simps [simp del]

text \<open>For \<open>0 < x\<close>: the exponent \<open>e\<close> with \<open>2 powi e \<le> x < 2 powi (e + 1)\<close>.\<close>

definition ilog2 :: "rat \<Rightarrow> int" where
  "ilog2 x =
     (let e0 = (if 1 \<le> x then bit_length \<lfloor>x\<rfloor> - 1 else - bit_length \<lfloor>1 / x\<rfloor>)
      in if 2 powi (e0 + 1) \<le> x then e0 + 1 else e0)"

definition round_half_even :: "rat \<Rightarrow> int" where
  "round_half_even y =
     (let f = \<lfloor>y\<rfloor>; r = y - of_int f
      in if r < 1 / 2 then f else if 1 / 2 < r then f + 1 else if even f then f else f + 1)"

definition round_double :: "rat \<Rightarrow> rat" where
  "round_double x =
     (if x = 0 then 0
      else let e = max (ilog2 \<bar>x\<bar>) (- 1022) - 52
           in sgn x * of_int (round_half_even (\<bar>x\<bar> / 2 powi e)) * 2 powi e)"

definition to_number :: "rat \<Rightarrow> js_number" where
  "to_number x =
     (let r = round_double x
      in if r \<noteq> 0 \<and> 1024 \<le> ilog2 \<bar>r\<bar>
         then (if 0 < r then PosInfinity else NegInfinity)
         else Finite r)"

text \<open>The operators of the source on Numbers: \<^verbatim>\<open>a + b\<close> and \<^verbatim>\<open>a > b\<close>.\<close>

fun js_add :: "js_number \<Rightarrow> js_number \<Rightarrow> js_number" where
  "js_add (Finite a) (Finite b) = to_number (a + b)"
| "js_add NaN _ = NaN"
| "js_add _ NaN = NaN"
| "js_add PosInfinity NegInfinity = NaN"
| "js_add NegInfinity PosInfinity = NaN"
| "js_add PosInfinity _ = PosInfinity"
| "js_add _ PosInfinity = PosInfinity"
| "js_add NegInfinity _ = NegInfinity"
| "js_add _ NegInfinity = NegInfinity"

fun js_gt :: "js_number \<Rightarrow> js_number \<Rightarrow> bool" where
  "js_gt (Finite a) (Finite b) \<longleftrightarrow> b < a"
| "js_gt NaN _ \<longleftrightarrow> False"
| "js_gt _ NaN \<longleftrightarrow> False"
| "js_gt PosInfinity PosInfinity \<longleftrightarrow> False"
| "js_gt PosInfinity _ \<longleftrightarrow> True"
| "js_gt _ PosInfinity \<longleftrightarrow> False"
| "js_gt NegInfinity _ \<longleftrightarrow> False"
| "js_gt _ NegInfinity \<longleftrightarrow> True"

text \<open>Division and multiplication of finite doubles whose result stays finite (the
  similarity score: a quotient of two lengths, times 100).\<close>

definition js_div :: "rat \<Rightarrow> rat \<Rightarrow> rat" where
  "js_div a b = round_double (a / b)"

definition js_mul :: "rat \<Rightarrow> rat \<Rightarrow> rat" where
  "js_mul a b = round_double (a * b)"

text \<open>\<^verbatim>\<open>Math.round\<close>: the nearest integer, a tie going up.\<close>

definition Math_round :: "rat \<Rightarrow> int" where
  "Math_round x = \<lfloor>x + 1 / 2\<rfloor>"

section \<open>Strings\<close>

text \<open>
  A string is a sequence of code units below 256 (ASCII and the Latin-1 supplement).
  \<^verbatim>\<open>\D\<close> is every character but the ten digits. \<^verbatim>\<open>trim\<close> strips tab, line feed,
  vertical tab, form feed, carriage return, space and the no-break space. The letters with
  two cases are A to Z and the capitals from U+00C0 to U+00DE (the multiplication sign
  U+00D7 is none), 32 below their small letters. \<^verbatim>\<open>toUpperCase\<close> is applied to the
  identifiers of \<^verbatim>\<open>nanoid\<close> only; of the three small letters whose capital is not one code
  unit below 256 (U+00B5, U+00DF, U+00FF) it leaves the first and the last as they are and
  writes the second as \<^verbatim>\<open>SS\<close>.
\<close>

definition is_digit :: "char \<Rightarrow> bool" where
  "is_digit c \<longleftrightarrow> c \<in> set ''0123456789''"

definition is_space :: "char \<Rightarrow> bool" where
  "is_space c \<longleftrightarrow>
     c \<in> set [CHR 0x09, CHR 0x0A, CHR 0x0B, CHR 0x0C, CHR 0x0D, CHR 0x20, CHR 0xA0]"

definition is_capital :: "char \<Rightarrow> bool" where
  "is_capital c \<longleftrightarrow>
     (let n = of_char c :: int
      in 0x41 \<le> n \<and> n \<le> 0x5A \<or> 0xC0 \<le> n \<and> n \<le> 0xDE \<and> n \<noteq> 0xD7)"

definition lower_char :: "char \<Rightarrow> char" where
  "lower_char c = (if is_capital c then char_of (of_char c + 32 :: int) else c)"

definition upper_chars :: "char \<Rightarrow> string" where
  "upper_chars c =
     (let n = of_char c :: int
      in if n = 0xDF then ''SS''
         else if 0x61 \<le> n \<and> n \<le> 0x7A \<or> 0xE0 \<le> n \<and> n \<le> 0xFE \<and> n \<noteq> 0xF7
         then [char_of (n - 32)]
         else [c])"

definition toLowerCase :: "string \<Rightarrow> string" where
  "toLowerCase s = map lower_char s"

definition toUpperCase :: "string \<Rightarrow> string" where
  "toUpperCase s = concat (map upper_chars s)"

definition trimStart :: "string \<Rightarrow> string" where
  "trimStart s = dropWhile is_space s"

definition trim :: "string \<Rightarrow> string" where
  "trim s = rev (dropWhile is_space (rev (dropWhile is_space s)))"

text \<open>\<^verbatim>\<open>s.split(sep)\<close> for a one-character separator: never empty, one piece more than
  there are separators.\<close>

fun split_on :: "char \<Rightarrow> string \<Rightarrow> string list" where
  "split_on sep [] = [[]]"
| "split_on sep (c # cs) =
     (if c = sep then [] # split_on sep cs
      else (case split_on sep cs of [] \<Rightarrow> [[c]] | w # ws \<Rightarrow> (c # w) # ws))"

text \<open>\<^verbatim>\<open>h.includes(t)\<close>: \<open>t\<close> occurs in \<open>h\<close> as a block.\<close>

fun starts_with :: "string \<Rightarrow> string \<Rightarrow> bool" where
  "starts_with [] s \<longleftrightarrow> True"
| "starts_with (p # ps) [] \<longleftrightarrow> False"
| "starts_with (p # ps) (c # cs) \<longleftrightarrow> p = c \<and> starts_with ps cs"

fun str_includes :: "string \<Rightarrow> string \<Rightarrow> bool" where
  "str_includes [] t \<longleftrightarrow> t = []"
| "str_includes (c # cs) t \<longleftrightarrow> starts_with t (c # cs) \<or> str_includes cs t"

text \<open>\<^verbatim>\<open>xs.findIndex(p)\<close>: the first index whose element satisfies \<open>p\<close>, or \<open>-1\<close>.\<close>

fun findIndex :: "('a \<Rightarrow> bool) \<Rightarrow> 'a list \<Rightarrow> int" where
  "findIndex p [] = - 1"
| "findIndex p (x # xs) =
     (if p x then 0 else (let k = findIndex p xs in if k < 0 then - 1 else k + 1))"

text \<open>\<^verbatim>\<open>xs[k]\<close> for an index that is not negative: \<open>None\<close> is \<^verbatim>\<open>undefined\<close>.\<close>

definition at_index :: "'a list \<Rightarrow> int \<Rightarrow> 'a option" where
  "at_index xs k = (if 0 \<le> k \<and> nat k < length xs then Some (xs ! nat k) else None)"

text \<open>\<^verbatim>\<open>s.padStart(2, "0")\<close>.\<close>

definition padStart2 :: "string \<Rightarrow> string" where
  "padStart2 s = replicate (2 - length s) CHR ''0'' @ s"

subsection \<open>parseFloat\<close>

text \<open>
  The longest prefix, after leading white space, that is a signed decimal literal:
  \<^verbatim>\<open>Infinity\<close>, or digits with an optional fraction, or a fraction alone, each with an
  optional exponent that counts only when it has a digit. No such prefix, or the argument
  \<^verbatim>\<open>undefined\<close>, gives NaN; otherwise the double nearest to the value written.
\<close>

definition digit_value :: "char \<Rightarrow> int" where
  "digit_value c = of_char c - 48"

definition digits_value :: "string \<Rightarrow> int" where
  "digits_value ds = foldl (\<lambda>a c. 10 * a + digit_value c) 0 ds"

definition exponent_of :: "string \<Rightarrow> int" where
  "exponent_of r =
     (case r of
        [] \<Rightarrow> 0
      | c # cs \<Rightarrow>
          if c = CHR ''e'' \<or> c = CHR ''E'' then
            (case cs of
               [] \<Rightarrow> 0
             | d # ds \<Rightarrow>
                 if d = CHR ''-'' then
                   (if takeWhile is_digit ds = [] then 0
                    else - digits_value (takeWhile is_digit ds))
                 else if d = CHR ''+'' then digits_value (takeWhile is_digit ds)
                 else digits_value (takeWhile is_digit cs))
          else 0)"

text \<open>The value written by an unsigned literal, exactly; \<open>None\<close> when there is no digit.\<close>

definition unsigned_value :: "string \<Rightarrow> rat option" where
  "unsigned_value s =
     (let ip = takeWhile is_digit s;
          r1 = dropWhile is_digit s;
          fp = (case r1 of [] \<Rightarrow> [] | c # cs \<Rightarrow> if c = CHR ''.'' then takeWhile is_digit cs else []);
          r2 = (case r1 of [] \<Rightarrow> [] | c # cs \<Rightarrow> if c = CHR ''.'' then dropWhile is_digit cs else r1)
      in if ip = [] \<and> fp = [] then None
         else Some ((of_int (digits_value ip) + of_int (digits_value fp) / 10 ^ length fp)
                    * 10 powi exponent_of r2))"

definition literal_value :: "string \<Rightarrow> rat option" where
  "literal_value s =
     (case trimStart s of
        [] \<Rightarrow> None
      | c # cs \<Rightarrow>
          if c = CHR ''-'' then map_option uminus (unsigned_value cs)
          else if c = CHR ''+'' then unsigned_value cs
          else unsigned_value (c # cs))"

definition parseFloat :: "string option \<Rightarrow> js_number" where
  "parseFloat arg =
     (case arg of
        None \<Rightarrow> NaN
      | Some s \<Rightarrow>
          (case trimStart s of
             [] \<Rightarrow> NaN
           | c # cs \<Rightarrow>
               if c = CHR ''-'' \<and> starts_with ''Infinity'' cs then NegInfinity
               else if c = CHR ''+'' \<and> starts_with ''Infinity'' cs then PosInfinity
               else if starts_with ''Infinity'' (c # cs) then PosInfinity
               else (case literal_value s of None \<Rightarrow> NaN | Some v \<Rightarrow> to_number v)))"

section \<open>Payment matching\<close>

datatype match_status = matched | unmatched | manual

text \<open>The payment date is kept as written: the text given to \<^verbatim>\<open>new Date(text)\<close>
  (\<open>None\<close> when the field is missing), or the time of the call.\<close>

datatype payment_date = DateOfText "string option" | DateNow

record ParsedPayment =
  paymentDate :: payment_date
  amount :: js_number
  payerName :: string
  phoneNumber :: "string option"
  referenceCode :: "string option"
  description :: "string option"

record MatchResult =
  tenantId :: "int option"
  invoiceId :: "int option"
  matchStatus :: match_status
  matchConfidence :: int
  matchReason :: "string option"

definition normalizePhoneNumber :: "string \<Rightarrow> string" where
  "normalizePhoneNumber phone_text =
     (let ds = filter is_digit phone_text in drop (length ds - 9) ds)"

subsection \<open>Edit distance\<close>

text \<open>\<^verbatim>\<open>costs[j] = v\<close> on a JavaScript array: in range it overwrites, at the end it extends.
  (An index past the end would leave holes; the loops below never write there.)\<close>

definition array_set :: "nat list \<Rightarrow> nat \<Rightarrow> nat \<Rightarrow> nat list" where
  "array_set xs j v = (if j < length xs then xs[j := v] else xs @ replicate (j - length xs) 0 @ [v])"

text \<open>\<^verbatim>\<open>s.charAt(k)\<close>: the empty string out of range.\<close>

definition charAt :: "string \<Rightarrow> nat \<Rightarrow> string" where
  "charAt s k = (if k < length s then [s ! k] else [])"

text \<open>The body of the inner loop at \<open>(i, j)\<close>, on the pair of the array and \<open>lastValue\<close>.\<close>

definition edit_cell :: "string \<Rightarrow> string \<Rightarrow> nat \<Rightarrow> nat \<Rightarrow> nat list \<times> nat \<Rightarrow> nat list \<times> nat" where
  "edit_cell s1 s2 i j st =
     (case st of (costs, lastValue) \<Rightarrow>
        if i = 0 then (array_set costs j j, lastValue)
        else if 0 < j then
          (let newValue = costs ! (j - 1);
               newValue' = (if charAt s1 (i - 1) \<noteq> charAt s2 (j - 1)
                            then min (min newValue lastValue) (costs ! j) + 1
                            else newValue)
           in (array_set costs (j - 1) lastValue, newValue'))
        else (costs, lastValue))"

text \<open>The body of the outer loop at \<open>i\<close>.\<close>

definition edit_row :: "string \<Rightarrow> string \<Rightarrow> nat \<Rightarrow> nat list \<Rightarrow> nat list" where
  "edit_row s1 s2 i costs =
     (case fold (edit_cell s1 s2 i) [0..<Suc (length s2)] (costs, i) of
        (costs', lastValue) \<Rightarrow>
          if 0 < i then array_set costs' (length s2) lastValue else costs')"

definition getEditDistance :: "string \<Rightarrow> string \<Rightarrow> nat" where
  "getEditDistance s1 s2 = fold (edit_row s1 s2) [0..<Suc (length s1)] [] ! length s2"

definition calculateSimilarity :: "string \<Rightarrow> string \<Rightarrow> rat" where
  "calculateSimilarity str1 str2 =
     (let s1 = trim (toLowerCase str1);
          s2 = trim (toLowerCase str2)
      in if s1 = s2 then 100
         else
           let longer = (if length s1 > length s2 then s1 else s2);
               shorter = (if length s1 > length s2 then s2 else s1)
           in if length longer = 0 then 100
              else
                let editDistance = getEditDistance longer shorter
                in js_mul (js_div (of_int (int (length longer) - int editDistance))
                                  (of_nat (length longer))) 100)"

subsection \<open>The matcher\<close>

record BestMatch =
  bm_tenant :: "Tenant option"
  bm_similarity :: rat
  bm_confidence :: int

definition fullName :: "Tenant \<Rightarrow> string" where
  "fullName t = toLowerCase (firstName t @ '' '' @ lastName t)"

definition name_step :: "string \<Rightarrow> Tenant \<Rightarrow> BestMatch \<Rightarrow> BestMatch" where
  "name_step payer t bestMatch =
     (let similarity = calculateSimilarity payer (fullName t)
      in if similarity > 60 \<and> similarity > bm_similarity bestMatch
         then \<lparr> bm_tenant = Some t, bm_similarity = similarity,
                bm_confidence = Math_round similarity \<rparr>
         else bestMatch)"

definition phone_match :: "string \<Rightarrow> Tenant \<Rightarrow> bool" where
  "phone_match normalizedPhone t \<longleftrightarrow>
     phone t \<noteq> [] \<and> normalizePhoneNumber (phone t) = normalizedPhone"

definition name_matching :: "ParsedPayment \<Rightarrow> Tenant list \<Rightarrow> MatchResult" where
  "name_matching payment allTenants =
     (let bestMatch = fold (name_step (payerName payment)) allTenants
                        \<lparr> bm_tenant = None, bm_similarity = 0, bm_confidence = 0 \<rparr>
      in case bm_tenant bestMatch of
           Some t \<Rightarrow>
             if bm_confidence bestMatch > 70
             then \<lparr> tenantId = Some (tenant_id t), invoiceId = None, matchStatus = matched,
                    matchConfidence = bm_confidence bestMatch,
                    matchReason = Some (''Name match ('' @ String_of_int (bm_confidence bestMatch)
                                         @ ''% similarity)'') \<rparr>
             else \<lparr> tenantId = None, invoiceId = None, matchStatus = unmatched,
                    matchConfidence = bm_confidence bestMatch,
                    matchReason = Some ''No clear match found'' \<rparr>
         | None \<Rightarrow>
             \<lparr> tenantId = None, invoiceId = None, matchStatus = unmatched,
               matchConfidence = bm_confidence bestMatch,
               matchReason = Some ''No clear match found'' \<rparr>)"

text \<open>The payment carries a phone number when the field is there and not empty.\<close>

definition phone_of :: "ParsedPayment \<Rightarrow> string option" where
  "phone_of payment =
     (case phoneNumber payment of None \<Rightarrow> None | Some p \<Rightarrow> if p = [] then None else Some p)"

definition phone_matching :: "ParsedPayment \<Rightarrow> Tenant list \<Rightarrow> Tenant option" where
  "phone_matching payment allTenants =
     (case phone_of payment of
        None \<Rightarrow> None
      | Some p \<Rightarrow> find (phone_match (normalizePhoneNumber p)) allTenants)"

text \<open>Statement 0 is the select of all tenants; when it throws, the catch returns the
  bare unmatched result, as does a missing database.\<close>

definition autoMatchPaymentToTenant :: "faults \<Rightarrow> database option \<Rightarrow> ParsedPayment \<Rightarrow> MatchResult" where
  "autoMatchPaymentToTenant flt dbo payment =
     (case dbo of
        None \<Rightarrow> \<lparr> tenantId = None, invoiceId = None, matchStatus = unmatched,
                  matchConfidence = 0, matchReason = None \<rparr>
      | Some db \<Rightarrow>
         (case flt 0 of
            Some msg \<Rightarrow> \<lparr> tenantId = None, invoiceId = None, matchStatus = unmatched,
                          matchConfidence = 0, matchReason = None \<rparr>
          | None \<Rightarrow>
             (case phone_matching payment (tenants db) of
                Some t \<Rightarrow> \<lparr> tenantId = Some (tenant_id t), invoiceId = None,
                            matchStatus = matched, matchConfidence = 100,
                            matchReason = Some ''Phone number match'' \<rparr>
              | None \<Rightarrow> name_matching payment (tenants db))))"

subsection \<open>The payment feed\<close>

record Columns =
  dateIdx :: int
  amountIdx :: int
  nameIdx :: int
  phoneIdx :: int
  refIdx :: int
  descIdx :: int

definition header_columns :: "string \<Rightarrow> Columns" where
  "header_columns line =
     (let header = map (\<lambda>h. toLowerCase (trim h)) (split_on CHR '','' line)
      in \<lparr> dateIdx = findIndex (\<lambda>h. str_includes h ''date'') header,
           amountIdx = findIndex (\<lambda>h. str_includes h ''amount'') header,
           nameIdx = findIndex (\<lambda>h. str_includes h ''name'' \<or> str_includes h ''payer'') header,
           phoneIdx = findIndex (\<lambda>h. str_includes h ''phone'') header,
           refIdx = findIndex (\<lambda>h. str_includes h ''reference'' \<or> str_includes h ''ref'') header,
           descIdx = findIndex (\<lambda>h. str_includes h ''description'' \<or> str_includes h ''note'') header \<rparr>)"

text \<open>The body of the loop over the data lines: the payment pushed, if any.\<close>

definition parse_line :: "Columns \<Rightarrow> string \<Rightarrow> ParsedPayment option" where
  "parse_line cols line =
     (let parts = map trim (split_on CHR '','' line)
      in if length parts < 2 then None
         else
           let paymentDate = (if dateIdx cols \<ge> 0 then DateOfText (at_index parts (dateIdx cols))
                              else DateNow);
               amount = (if amountIdx cols \<ge> 0 then parseFloat (at_index parts (amountIdx cols))
                         else Finite 0);
               payerName = (if nameIdx cols \<ge> 0 then at_index parts (nameIdx cols)
                            else Some ''Unknown'')
           in (case payerName of
                 None \<Rightarrow> None
               | Some name \<Rightarrow>
                   if js_gt amount (Finite 0) \<and> name \<noteq> []
                   then Some \<lparr> paymentDate = paymentDate, amount = amount, payerName = name,
                               phoneNumber = (if phoneIdx cols \<ge> 0 then at_index parts (phoneIdx cols) else None),
                               referenceCode = (if refIdx cols \<ge> 0 then at_index parts (refIdx cols) else None),
                               description = (if descIdx cols \<ge> 0 then at_index parts (descIdx cols) else None) \<rparr>
                   else None))"

definition parseCSVPayments :: "string \<Rightarrow> ParsedPayment list" where
  "parseCSVPayments csvContent =
     (let lines = split_on CHR 0x0A (trim csvContent)
      in if length lines < 2 then []
         else List.map_filter (parse_line (header_columns (hd lines))) (tl lines))"

section \<open>Dates\<close>

text \<open>
  The Date arithmetic of the language standard, on time values in milliseconds. Time
  values are local times: the constructor and the getters convert from and to local time
  with the same offset, which is left out, as is the clipping of time values beyond
  \<open>8.64 * 10 ^ 15\<close> milliseconds from the epoch.
\<close>

definition msPerDay :: int where
  "msPerDay = 86400000"

definition Day :: "time_value \<Rightarrow> int" where
  "Day t = t div msPerDay"

definition DaysInYear :: "int \<Rightarrow> int" where
  "DaysInYear y =
     (if y mod 4 \<noteq> 0 then 365 else if y mod 100 \<noteq> 0 then 366
      else if y mod 400 \<noteq> 0 then 365 else 366)"

definition DayFromYear :: "int \<Rightarrow> int" where
  "DayFromYear y =
     365 * (y - 1970) + (y - 1969) div 4 - (y - 1901) div 100 + (y - 1601) div 400"

text \<open>One more day per year divisible by 4, one less per century, one more every 400
  years: the step of \<open>DayFromYear\<close> is the length of the year.\<close>

lemma div_step:
  fixes a :: int
  assumes "0 < n"
  shows "(a + 1) div n = a div n + (if (a + 1) mod n = 0 then 1 else 0)"
proof -
  have a: "a = n * (a div n) + a mod n" by simp
  have r: "0 \<le> a mod n" "a mod n < n" using assms by simp_all
  show ?thesis
  proof (cases "a mod n = n - 1")
    case True
    have "a + 1 = n * (a div n) + n" using a True by linarith
    also have "\<dots> = n * (a div n + 1) + 0" by (simp add: algebra_simps)
    finally have e: "a + 1 = n * (a div n + 1) + 0" .
    have "(a + 1) div n = a div n + 1"
      by (rule int_div_pos_eq[OF e]) (use assms in simp_all)
    moreover have "(a + 1) mod n = 0"
      by (rule int_mod_pos_eq[OF e]) (use assms in simp_all)
    ultimately show ?thesis by simp
  next
    case False
    with r have lt: "a mod n + 1 < n" by simp
    have e: "a + 1 = n * (a div n) + (a mod n + 1)" using a by linarith
    have "(a + 1) div n = a div n"
      by (rule int_div_pos_eq[OF e]) (use r lt in simp_all)
    moreover have "(a + 1) mod n = a mod n + 1"
      by (rule int_mod_pos_eq[OF e]) (use r lt in simp_all)
    ultimately show ?thesis using r by simp
  qed
qed

lemma DayFromYear_Suc: "DayFromYear (y + 1) = DayFromYear y + DaysInYear y"
proof -
  have m4: "(y - 1968) mod 4 = y mod 4"
    using mod_diff_eq[of y 4 1968] by simp
  have m100: "(y - 1900) mod 100 = y mod 100"
    using mod_diff_eq[of y 100 1900] by simp
  have m400: "(y - 1600) mod 400 = y mod 400"
    using mod_diff_eq[of y 400 1600] by simp
  have d4: "(y + 1 - 1969) div 4 = (y - 1969) div 4 + (if y mod 4 = 0 then 1 else 0)"
    using div_step[of 4 "y - 1969"] m4 by (simp add: algebra_simps)
  have d100: "(y + 1 - 1901) div 100 = (y - 1901) div 100 + (if y mod 100 = 0 then 1 else 0)"
    using div_step[of 100 "y - 1901"] m100 by (simp add: algebra_simps)
  have d400: "(y + 1 - 1601) div 400 = (y - 1601) div 400 + (if y mod 400 = 0 then 1 else 0)"
    using div_step[of 400 "y - 1601"] m400 by (simp add: algebra_simps)
  have i1: "y mod 4 = 0" if "y mod 100 = 0"
  proof -
    from that have "100 dvd y" by (simp add: mod_0_imp_dvd)
    moreover have "(4::int) dvd 100" by simp
    ultimately have "4 dvd y" by (rule dvd_trans[rotated])
    then show ?thesis by simp
  qed
  have i2: "y mod 100 = 0" if "y mod 400 = 0"
  proof -
    from that have "400 dvd y" by (simp add: mod_0_imp_dvd)
    moreover have "(100::int) dvd 400" by simp
    ultimately have "100 dvd y" by (rule dvd_trans[rotated])
    then show ?thesis by simp
  qed
  show ?thesis
    unfolding DayFromYear_def DaysInYear_def d4 d100 d400
    using i1 i2 by auto
qed

lemma DayFromYear_pred_less: "DayFromYear (y - 1) < DayFromYear y"
  using DayFromYear_Suc[of "y - 1"] by (simp add: DaysInYear_def split: if_splits)

text \<open>\<^verbatim>\<open>YearFromTime\<close>, the largest year that starts at or before the day: a search down
  from a year that starts after it.\<close>

function year_down :: "int \<Rightarrow> int \<Rightarrow> int" where
  "year_down y d = (if d < DayFromYear y then year_down (y - 1) d else y)"
  by pat_completeness auto
termination
proof (relation "measure (\<lambda>(y, d). nat (DayFromYear y - d))")
  show "wf (measure (\<lambda>(y, d). nat (DayFromYear y - d)))" by simp
next
  fix y d :: int
  assume "d < DayFromYear y"
  then show "((y - 1, d), (y, d)) \<in> measure (\<lambda>(y, d). nat (DayFromYear y - d))"
    using DayFromYear_pred_less[of y] by simp
qed

declare year_down.simps [simp del]

definition YearFromDay :: "int \<Rightarrow> int" where
  "YearFromDay d = year_down (1970 + (if 0 \<le> d then d div 365 else d div 366)) d"

definition YearFromTime :: "time_value \<Rightarrow> int" where
  "YearFromTime t = YearFromDay (Day t)"

definition InLeapYear :: "time_value \<Rightarrow> int" where
  "InLeapYear t = (if DaysInYear (YearFromTime t) = 366 then 1 else 0)"

definition DayWithinYear :: "time_value \<Rightarrow> int" where
  "DayWithinYear t = Day t - DayFromYear (YearFromTime t)"

definition MonthFromTime :: "time_value \<Rightarrow> int" where
  "MonthFromTime t =
     (let d = DayWithinYear t; l = InLeapYear t
      in if d < 31 then 0
         else if d < 59 + l then 1
         else if d < 90 + l then 2
         else if d < 120 + l then 3
         else if d < 151 + l then 4
         else if d < 181 + l then 5
         else if d < 212 + l then 6
         else if d < 243 + l then 7
         else if d < 273 + l then 8
         else if d < 304 + l then 9
         else if d < 334 + l then 10
         else 11)"

definition DateFromTime :: "time_value \<Rightarrow> int" where
  "DateFromTime t =
     (let d = DayWithinYear t; l = InLeapYear t; m = MonthFromTime t
      in if m = 0 then d + 1
         else if m = 1 then d - 30
         else if m = 2 then d - 58 - l
         else if m = 3 then d - 89 - l
         else if m = 4 then d - 119 - l
         else if m = 5 then d - 150 - l
         else if m = 6 then d - 180 - l
         else if m = 7 then d - 211 - l
         else if m = 8 then d - 242 - l
         else if m = 9 then d - 272 - l
         else if m = 10 then d - 303 - l
         else d - 333 - l)"

text \<open>The day within the year on which month \<open>mn\<close> (0 to 11) starts.\<close>

definition month_start :: "int \<Rightarrow> int \<Rightarrow> int" where
  "month_start mn l =
     (if mn = 0 then 0
      else if mn = 1 then 31
      else if mn = 2 then 59 + l
      else if mn = 3 then 90 + l
      else if mn = 4 then 120 + l
      else if mn = 5 then 151 + l
      else if mn = 6 then 181 + l
      else if mn = 7 then 212 + l
      else if mn = 8 then 243 + l
      else if mn = 9 then 273 + l
      else if mn = 10 then 304 + l
      else 334 + l)"

text \<open>The length of month \<open>mn\<close> of year \<open>y\<close>.\<close>

definition DaysInMonth :: "int \<Rightarrow> int \<Rightarrow> int" where
  "DaysInMonth y mn =
     (if mn = 1 then (if DaysInYear y = 366 then 29 else 28)
      else if mn = 3 \<or> mn = 5 \<or> mn = 8 \<or> mn = 10 then 30
      else 31)"

text \<open>\<^verbatim>\<open>MakeDay\<close>: months outside 0 to 11 carry into the year, and the date counts on from
  the first of the month, below 1 and past the end of the month alike.\<close>

definition MakeDay :: "int \<Rightarrow> int \<Rightarrow> int \<Rightarrow> int" where
  "MakeDay year month date =
     (let ym = year + month div 12;
          mn = month mod 12
      in DayFromYear ym + month_start mn (if DaysInYear ym = 366 then 1 else 0) + date - 1)"

text \<open>\<^verbatim>\<open>new Date(year, month, date)\<close>: midnight of that day; a year from 0 to 99 means
  1900 to 1999.\<close>

definition new_Date :: "int \<Rightarrow> int \<Rightarrow> int \<Rightarrow> time_value" where
  "new_Date year month date =
     (let yr = (if 0 \<le> year \<and> year \<le> 99 then 1900 + year else year)
      in MakeDay yr month date * msPerDay)"

section \<open>Amount columns\<close>

subsection \<open>The text of a Number\<close>

text \<open>The number of decimal digits of a positive integer.\<close>

function digit_count :: "int \<Rightarrow> int" where
  "digit_count n = (if n \<le> 0 then 0 else 1 + digit_count (n div 10))"
  by pat_completeness auto
termination
  by (relation "measure nat") auto

declare digit_count.simps [simp del]

text \<open>For \<open>0 < x\<close>: the \<open>n\<close> with \<open>10 powi (n - 1) \<le> x < 10 powi n\<close>.\<close>

definition decimal_exponent :: "rat \<Rightarrow> int" where
  "decimal_exponent x =
     (let n0 = (if 1 \<le> x then digit_count \<lfloor>x\<rfloor> else 1 - digit_count \<lfloor>1 / x\<rfloor>)
      in if 10 powi n0 \<le> x then n0 + 1 else n0)"

text \<open>
  \<^verbatim>\<open>Number.prototype.toString\<close> prints a finite Number \<open>x\<close> other than zero as the decimal
  \<open>s * 10 powi (n - k)\<close>, \<open>s\<close> an integer of \<open>k\<close> digits, whose nearest Number is \<open>x\<close>, with
  \<open>k\<close> as small as possible; of several such \<open>s\<close> the one that comes closest to \<open>x\<close>, the
  even one of two equally close. For a given \<open>k\<close> the closest decimals of \<open>k\<close> digits are
  the one just below \<open>x\<close> and the one just above.
\<close>

definition toString_digits :: "rat \<Rightarrow> int \<Rightarrow> rat option" where
  "toString_digits x k =
     (let n = decimal_exponent x;
          u = 10 powi (n - k);
          s = \<lfloor>x / u\<rfloor>;
          below = of_int s * u;
          above = of_int (s + 1) * u;
          below_prints = (to_number below = Finite x);
          above_prints = (to_number above = Finite x)
      in if below_prints \<and> above_prints then
           (if x - below < above - x then Some below
            else if above - x < x - below then Some above
            else if even s then Some below else Some above)
         else if below_prints then Some below
         else if above_prints then Some above
         else None)"

text \<open>The search for the least \<open>k\<close>. Seventeen digits tell every binary64 value from its
  neighbours, so the search does not go further.\<close>

function toString_search :: "rat \<Rightarrow> int \<Rightarrow> rat option" where
  "toString_search x k =
     (if 17 < k then None
      else case toString_digits x k of
             Some d \<Rightarrow> Some d
           | None \<Rightarrow> toString_search x (k + 1))"
  by pat_completeness auto
termination
  by (relation "measure (\<lambda>(x, k). nat (18 - k))") auto

declare toString_search.simps [simp del]

text \<open>The value of the text printed for a finite Number: a negative Number is printed as
  the minus sign and the text of its absolute value. (The last case is not reached by a
  binary64 value and makes the function total.)\<close>

definition toString_value :: "rat \<Rightarrow> rat" where
  "toString_value x =
     (if x = 0 then 0
      else case toString_search \<bar>x\<bar> 1 of
             Some d \<Rightarrow> sgn x * d
           | None \<Rightarrow> x)"

subsection \<open>What the column keeps\<close>

text \<open>A select returns a \<^verbatim>\<open>decimal(10,2)\<close> value, \<open>c\<close> hundredths, as its sign, its whole
  part, a point and two fraction digits.\<close>

definition decimal_text :: "int \<Rightarrow> string" where
  "decimal_text c =
     (if c < 0 then ''-'' else []) @ digits_of (\<bar>c\<bar> div 100) @ ''.''
       @ padStart2 (digits_of (\<bar>c\<bar> mod 100))"

text \<open>Rounding to an integer, a tie going away from zero.\<close>

definition round_half_away :: "rat \<Rightarrow> int" where
  "round_half_away y = (if 0 \<le> y then \<lfloor>y + 1 / 2\<rfloor> else - \<lfloor>- y + 1 / 2\<rfloor>)"

text \<open>
  What an amount column keeps of a value handed to it, or the error of the insert. The
  text of a finite Number is a numeric literal, which the server reads exactly and rounds
  to hundredths; ten digits is all the column takes. \<^verbatim>\<open>NaN\<close> and \<^verbatim>\<open>Infinity\<close> are
  no numbers to the server.
\<close>

definition amount_column :: "js_text \<Rightarrow> string + js_text" where
  "amount_column v =
     (case v of
        Str s \<Rightarrow> Inr (Str s)
      | NumberToString x \<Rightarrow>
         (case x of
            Finite q \<Rightarrow>
              (let c = round_half_away (toString_value q * 100)
               in if \<bar>c\<bar> < 10 ^ 10 then Inr (Str (decimal_text c))
                  else Inl ''Out of range value'')
          | _ \<Rightarrow> Inl ''Incorrect decimal value''))"

section \<open>Invoice generation\<close>

text \<open>
  What a run reads from outside the database: the clock, the identifiers the \<^verbatim>\<open>nanoid\<close>
  library hands out (the result of its \<open>i\<close>-th call), the month-and-year text of the
  run-time's default locale, and whether the driver's insert result carries
  \<^verbatim>\<open>insertId\<close>.
\<close>

record gen_env =
  now :: time_value
  nanoid :: "nat \<Rightarrow> string"
  month_year_text :: "time_value \<Rightarrow> string"
  insertId_reported :: bool

text \<open>The alphabet of \<^verbatim>\<open>nanoid\<close>: the letters, the digits, underscore and hyphen.\<close>

definition urlAlphabet :: string where
  "urlAlphabet = ''useandom-26T198340PX75pxJACKVERYMINDBUSHWOLF_GQZbfghjklqvwyzrict''"

definition is_nanoid :: "nat \<Rightarrow> string \<Rightarrow> bool" where
  "is_nanoid n s \<longleftrightarrow> length s = n \<and> set s \<subseteq> set urlAlphabet"

definition invoice_number :: "int \<Rightarrow> int \<Rightarrow> string \<Rightarrow> string" where
  "invoice_number currentYear currentMonth ident =
     ''INV-'' @ String_of_int currentYear @ padStart2 (String_of_int (currentMonth + 1))
       @ ''-'' @ toUpperCase ident"

text \<open>The body of the loop over the active leases, at the \<open>i\<close>-th lease.\<close>

definition draft_for :: "gen_env \<Rightarrow> int \<Rightarrow> nat \<Rightarrow> Lease \<Rightarrow> PendingInvoice" where
  "draft_for env logId i lease =
     (let currentMonth = MonthFromTime (now env);
          currentYear = YearFromTime (now env);
          periodStart = new_Date currentYear currentMonth 1;
          periodEnd = new_Date currentYear (currentMonth + 1) 0;
          dueDate = new_Date currentYear (currentMonth + 1) 10;
          rentAmount = parseFloat (Some (monthlyRent lease));
          serviceChargeAmount = parseFloat (Some (serviceCharge lease));
          utilitiesAmount = Finite 0;
          totalAmount = js_add (js_add rentAmount serviceChargeAmount) utilitiesAmount
      in \<lparr> leaseId = lease_id lease,
           invoiceNumber = invoice_number currentYear currentMonth (nanoid env i),
           invoiceDate = now env,
           dueDate = dueDate,
           periodStart = periodStart,
           periodEnd = periodEnd,
           rentAmount = NumberToString rentAmount,
           serviceChargeAmount = NumberToString serviceChargeAmount,
           utilitiesAmount = NumberToString utilitiesAmount,
           totalAmount = NumberToString totalAmount,
           invoice_notes = ''Auto-generated invoice for '' @ month_year_text env periodStart,
           generationLogId = logId \<rparr>)"

text \<open>The rows the run works on, and the drafts it builds from them.\<close>

definition active_leases :: "database \<Rightarrow> Lease list" where
  "active_leases db = filter (\<lambda>l. lease_state l = active) (leases db)"

definition drafts_for :: "gen_env \<Rightarrow> int \<Rightarrow> Lease list \<Rightarrow> PendingInvoice list" where
  "drafts_for env logId ls = map (\<lambda>(i, lease). draft_for env logId i lease) (zip [0..<length ls] ls)"

definition next_log_id :: "database \<Rightarrow> int" where
  "next_log_id db = fold max (map log_id (invoiceGenerationLogs db)) 0 + 1"

definition insert_log :: "GenerationLog \<Rightarrow> database \<Rightarrow> database" where
  "insert_log l db = db\<lparr>invoiceGenerationLogs := invoiceGenerationLogs db @ [l\<lparr>log_id := next_log_id db\<rparr>]\<rparr>"

definition review_details :: "nat \<Rightarrow> string" where
  "review_details n =
     ''Successfully generated '' @ String_of_int (int n)
       @ '' invoices for review. Status: Pending Admin Review''"

definition record_counts :: "int \<Rightarrow> nat \<Rightarrow> nat \<Rightarrow> GenerationLog \<Rightarrow> GenerationLog" where
  "record_counts logId n k l =
     (if log_id l = logId
      then l\<lparr>invoicesGenerated := n, propertiesAffected := k, details := review_details n\<rparr>
      else l)"

text \<open>The insert of the drafts: each of the four amounts goes through its column, and one
  value that is rejected rejects the statement as a whole.\<close>

definition stored_draft :: "PendingInvoice \<Rightarrow> string + PendingInvoice" where
  "stored_draft p =
     (case amount_column (rentAmount p) of
        Inl msg \<Rightarrow> Inl msg
      | Inr rent_kept \<Rightarrow>
         (case amount_column (serviceChargeAmount p) of
            Inl msg \<Rightarrow> Inl msg
          | Inr service_kept \<Rightarrow>
             (case amount_column (utilitiesAmount p) of
                Inl msg \<Rightarrow> Inl msg
              | Inr utilities_kept \<Rightarrow>
                 (case amount_column (totalAmount p) of
                    Inl msg \<Rightarrow> Inl msg
                  | Inr total_kept \<Rightarrow>
                      Inr (p\<lparr>rentAmount := rent_kept, serviceChargeAmount := service_kept,
                              utilitiesAmount := utilities_kept, totalAmount := total_kept\<rparr>)))))"

fun stored_drafts :: "PendingInvoice list \<Rightarrow> string + PendingInvoice list" where
  "stored_drafts [] = Inr []"
| "stored_drafts (p # ps) =
     (case stored_draft p of
        Inl msg \<Rightarrow> Inl msg
      | Inr row \<Rightarrow> (case stored_drafts ps of Inl msg \<Rightarrow> Inl msg | Inr rows \<Rightarrow> Inr (row # rows)))"

definition insert_drafts :: "string option \<Rightarrow> PendingInvoice list \<Rightarrow> database \<Rightarrow> string + database" where
  "insert_drafts fault drafts db =
     (case fault of
        Some msg \<Rightarrow> Inl msg
      | None \<Rightarrow>
         (case stored_drafts drafts of
            Inl msg \<Rightarrow> Inl msg
          | Inr rows \<Rightarrow> Inr (db\<lparr>pendingInvoices := pendingInvoices db @ rows\<rparr>)))"

text \<open>The catch block: a best-effort insert of a failed log (statement 4), then the
  failure object.\<close>

definition generation_failed ::
  "faults \<Rightarrow> string \<Rightarrow> database \<Rightarrow> (nat \<times> nat \<times> int) js_result \<times> database option" where
  "generation_failed flt msg db =
     (Failure msg,
      Some (case flt 4 of
              Some _ \<Rightarrow> db
            | None \<Rightarrow> insert_log \<lparr> log_id = 0, invoicesGenerated = 0, propertiesAffected = 0,
                                    log_state = failed,
                                    details = ''Invoice generation failed: '' @ msg \<rparr> db))"

text \<open>
  Statements in the order of the source: 0 select the active leases, 1 insert the log,
  2 insert the drafts, 3 update the log. The success object carries the number of drafts,
  the number of distinct lease ids and the log id.
\<close>

definition generateMonthlyInvoices ::
  "gen_env \<Rightarrow> faults \<Rightarrow> database option \<Rightarrow> (nat \<times> nat \<times> int) js_result \<times> database option" where
  "generateMonthlyInvoices env flt dbo =
     (case dbo of
        None \<Rightarrow> (Undefined, None)
      | Some db \<Rightarrow>
         (case flt 0 of
            Some msg \<Rightarrow> generation_failed flt msg db
          | None \<Rightarrow>
             let activeLeases = active_leases db in
             if length activeLeases = 0 then (Undefined, Some db)
             else
               (case flt 1 of
                  Some msg \<Rightarrow> generation_failed flt msg db
                | None \<Rightarrow>
                   let db1 = insert_log \<lparr> log_id = 0, invoicesGenerated = 0, propertiesAffected = 0,
                                           log_state = pending_review,
                                           details = ''Invoice generation for ''
                                                     @ month_year_text env (now env) \<rparr> db;
                       logId = (if insertId_reported env then next_log_id db else 1);
                       generatedInvoices = drafts_for env logId activeLeases;
                       affectedProperties = set (map lease_id activeLeases)
                   in (case insert_drafts (flt 2) generatedInvoices db1 of
                         Inl msg \<Rightarrow> generation_failed flt msg db1
                       | Inr db2 \<Rightarrow>
                          (case flt 3 of
                             Some msg \<Rightarrow> generation_failed flt msg db2
                           | None \<Rightarrow>
                              (Success (length generatedInvoices, card affectedProperties, logId),
                               Some (db2\<lparr>invoiceGenerationLogs :=
                                       map (record_counts logId (length generatedInvoices)
                                              (card affectedProperties))
                                           (invoiceGenerationLogs db2)\<rparr>)))))))"

section \<open>Finalization\<close>

text \<open>The unique index on \<^verbatim>\<open>invoices.invoiceNumber\<close>: a bulk insert that would leave
  two rows with the same number is rejected as a whole.\<close>

definition insert_invoices :: "string option \<Rightarrow> Invoice list \<Rightarrow> database \<Rightarrow> string + database" where
  "insert_invoices fault rows db =
     (case fault of
        Some msg \<Rightarrow> Inl msg
      | None \<Rightarrow>
          if distinct (map invoiceNumber (invoices db @ rows))
          then Inr (db\<lparr>invoices := invoices db @ rows\<rparr>)
          else Inl ''Duplicate entry for key invoiceNumber'')"

definition toInvoice :: "PendingInvoice \<Rightarrow> Invoice" where
  "toInvoice p =
     \<lparr> leaseId = leaseId p,
       invoiceNumber = invoiceNumber p,
       invoiceDate = invoiceDate p,
       dueDate = dueDate p,
       periodStart = periodStart p,
       periodEnd = periodEnd p,
       rentAmount = rentAmount p,
       serviceChargeAmount = serviceChargeAmount p,
       utilitiesAmount = utilitiesAmount p,
       totalAmount = totalAmount p,
       invoice_notes = invoice_notes p,
       paidAmount = Str ''0.00'',
       status = unpaid \<rparr>"

definition finalized_details :: "nat \<Rightarrow> string" where
  "finalized_details n = ''Finalized '' @ String_of_int (int n) @ '' invoices. Ready for collection.''"

definition mark_finalized :: "int \<Rightarrow> nat \<Rightarrow> GenerationLog \<Rightarrow> GenerationLog" where
  "mark_finalized logId n l =
     (if log_id l = logId then l\<lparr>log_state := finalized, details := finalized_details n\<rparr> else l)"

text \<open>
  Statements in the order of the source: 0 select the drafts of the log, 1 insert the
  invoices, 2 delete the drafts, 3 update the log. \<^verbatim>\<open>getDb()\<close> returning null is the
  database argument \<open>None\<close>. The amounts of the invoices are the texts read from the amount
  columns of the drafts and the literal \<^verbatim>\<open>"0.00"\<close>, which the amount columns of the
  invoices keep as they are.
\<close>

definition finalizePendingInvoices ::
  "faults \<Rightarrow> int \<Rightarrow> database option \<Rightarrow> nat js_result \<times> database option" where
  "finalizePendingInvoices flt logId dbo =
     (case dbo of
        None \<Rightarrow> (Undefined, None)
      | Some db \<Rightarrow>
         (case flt 0 of
            Some msg \<Rightarrow> (Failure msg, Some db)
          | None \<Rightarrow>
             let pending = filter (\<lambda>p. generationLogId p = logId) (pendingInvoices db) in
             if length pending = 0 then (Undefined, Some db)
             else
               let invoicesToCreate = map toInvoice pending in
               (case insert_invoices (flt 1) invoicesToCreate db of
                  Inl msg \<Rightarrow> (Failure msg, Some db)
                | Inr db1 \<Rightarrow>
                   (case flt 2 of
                      Some msg \<Rightarrow> (Failure msg, Some db1)
                    | None \<Rightarrow>
                       let db2 = db1\<lparr>pendingInvoices :=
                                  filter (\<lambda>p. generationLogId p \<noteq> logId) (pendingInvoices db1)\<rparr> in
                       (case flt 3 of
                          Some msg \<Rightarrow> (Failure msg, Some db2)
                        | None \<Rightarrow>
                           (Success (length invoicesToCreate),
                            Some (db2\<lparr>invoiceGenerationLogs :=
                                    map (mark_finalized logId (length invoicesToCreate))
                                        (invoiceGenerationLogs db2)\<rparr>)))))))"

text \<open>The drafts of a log, and the line-by-line agreement of a draft and an invoice.\<close>

definition drafts_of :: "int \<Rightarrow> database \<Rightarrow> PendingInvoice list" where
  "drafts_of logId db = filter (\<lambda>p. generationLogId p = logId) (pendingInvoices db)"

definition same_amounts :: "PendingInvoice \<Rightarrow> Invoice \<Rightarrow> bool" where
  "same_amounts p i \<longleftrightarrow>
     rentAmount i = rentAmount p \<and> serviceChargeAmount i = serviceChargeAmount p \<and>
     utilitiesAmount i = utilitiesAmount p \<and> totalAmount i = totalAmount p"

definition carries :: "PendingInvoice \<Rightarrow> Invoice \<Rightarrow> bool" where
  "carries p i \<longleftrightarrow>
     same_amounts p i \<and> leaseId i = leaseId p \<and> invoiceNumber i = invoiceNumber p \<and>
     paidAmount i = Str ''0.00'' \<and> status i = unpaid"

text \<open>What a stored draft takes from its lease: the ids, and, when the rent and the
  service charge of the lease are values of their \<^verbatim>\<open>decimal(10,2)\<close> columns (\<open>r\<close> and \<open>s\<close>
  hundredths), these two amounts, utilities \<^verbatim>\<open>0.00\<close> and as total their exact sum.\<close>

definition draft_of_lease :: "int \<Rightarrow> Lease \<Rightarrow> PendingInvoice \<Rightarrow> bool" where
  "draft_of_lease logId l p \<longleftrightarrow> leaseId p = lease_id l \<and> generationLogId p = logId"

definition exact_amounts :: "Lease \<Rightarrow> PendingInvoice \<Rightarrow> bool" where
  "exact_amounts l p \<longleftrightarrow>
     (\<forall>r s. monthlyRent l = decimal_text r \<and> serviceCharge l = decimal_text s \<and>
            \<bar>r\<bar> < 10 ^ 10 \<and> \<bar>s\<bar> < 10 ^ 10 \<longrightarrow>
        rentAmount p = Str (decimal_text r) \<and>
        serviceChargeAmount p = Str (decimal_text s) \<and>
        utilitiesAmount p = Str ''0.00'' \<and>
        totalAmount p = Str (decimal_text (r + s)))"

text \<open>The leases a run can bill: the rent and the service charge are values of their
  columns and their sum is one as well.\<close>

definition billable :: "Lease \<Rightarrow> bool" where
  "billable l \<longleftrightarrow>
     (\<exists>r s. monthlyRent l = decimal_text r \<and> serviceCharge l = decimal_text s \<and>
            \<bar>r\<bar> < 10 ^ 10 \<and> \<bar>s\<bar> < 10 ^ 10 \<and> \<bar>r + s\<bar> < 10 ^ 10)"

text \<open>
  Stated from the specification: the invoice number contract
  \<^verbatim>\<open>INV-<4-digit year><2-digit month>-<6-char alphanumeric>\<close>.
\<close>

definition is_alnum :: "char \<Rightarrow> bool" where
  "is_alnum c \<longleftrightarrow>
     c \<in> set ''0123456789ABCDEFGHIJKLMNOPQRSTUVWXYZabcdefghijklmnopqrstuvwxyz''"

definition matches_contract :: "string \<Rightarrow> bool" where
  "matches_contract s \<longleftrightarrow>
     length s = 17 \<and> take 4 s = ''INV-'' \<and> list_all is_digit (take 6 (drop 4 s)) \<and>
     take 1 (drop 10 s) = ''-'' \<and> list_all is_alnum (drop 11 s)"

subsection \<open>The best candidate\<close>

text \<open>The score of a tenant against the payer name, the starting value of the search, and
  what the search is after: a tenant above the floor that no tenant beats and no earlier
  tenant equals.\<close>

definition similarity_to :: "string \<Rightarrow> Tenant \<Rightarrow> rat" where
  "similarity_to payer t = calculateSimilarity payer (fullName t)"

definition is_best_candidate :: "string \<Rightarrow> Tenant list \<Rightarrow> nat \<Rightarrow> bool" where
  "is_best_candidate payer ts i \<longleftrightarrow>
     i < length ts \<and> 60 < similarity_to payer (ts ! i) \<and>
     (\<forall>j < length ts. similarity_to payer (ts ! j) \<le> similarity_to payer (ts ! i)) \<and>
     (\<forall>j < i. similarity_to payer (ts ! j) < similarity_to payer (ts ! i))"

definition no_match_yet :: BestMatch where
  "no_match_yet = \<lparr> bm_tenant = None, bm_similarity = 0, bm_confidence = 0 \<rparr>"

section \<open>Sample data\<close>

definition sample_draft :: PendingInvoice where
  "sample_draft =
     \<lparr> leaseId = 7, invoiceNumber = ''INV-202502-ABC123'', invoiceDate = 0, dueDate = 0,
       periodStart = 0, periodEnd = 0,
       rentAmount = Str ''10000.00'', serviceChargeAmount = Str ''500.00'',
       utilitiesAmount = Str ''0.00'', totalAmount = Str ''10500.00'',
       invoice_notes = ''Auto-generated invoice for February 2025'',
       generationLogId = 1 \<rparr>"

definition sample_log :: GenerationLog where
  "sample_log =
     \<lparr> log_id = 1, invoicesGenerated = 1, propertiesAffected = 1, log_state = pending_review,
       details = ''Successfully generated 1 invoices for review. Status: Pending Admin Review'' \<rparr>"

definition sample_db :: database where
  "sample_db =
     \<lparr> leases = [], pendingInvoices = [sample_draft], invoices = [],
       invoiceGenerationLogs = [sample_log], tenants = [] \<rparr>"

definition sample_tenants :: "Tenant list" where
  "sample_tenants =
     [\<lparr> tenant_id = 1, firstName = ''Mary'', lastName = ''Wanjiku'', phone = ''0700 111 222'' \<rparr>,
      \<lparr> tenant_id = 2, firstName = ''John'', lastName = ''Doe'', phone = ''0712-345-678'' \<rparr>,
      \<lparr> tenant_id = 3, firstName = ''John'', lastName = ''Doe'', phone = ''+254712345678'' \<rparr>]"

definition tenants_db :: database where
  "tenants_db =
     \<lparr> leases = [], pendingInvoices = [], invoices = [], invoiceGenerationLogs = [],
       tenants = sample_tenants \<rparr>"

definition phone_payment :: ParsedPayment where
  "phone_payment =
     \<lparr> paymentDate = DateNow, amount = Finite 50000, payerName = ''Peter Otieno'',
       phoneNumber = Some ''+254 712 345 678'', referenceCode = None, description = None \<rparr>"

definition name_payment :: ParsedPayment where
  "name_payment =
     \<lparr> paymentDate = DateNow, amount = Finite 50000, payerName = ''Jon Doe'',
       phoneNumber = None, referenceCode = None, description = None \<rparr>"

definition stranger_payment :: ParsedPayment where
  "stranger_payment =
     \<lparr> paymentDate = DateNow, amount = Finite 50000, payerName = ''Jane Smith'',
       phoneNumber = None, referenceCode = None, description = None \<rparr>"

definition feed_blank_name :: string where
  "feed_blank_name =
     ''Date,Amount,Payer Name'' @ [CHR 0x0A] @ ''2025-01-15,50000,'' @ [CHR 0x0A]
       @ ''2025-01-16,1000,Jane Smith''"

definition feed_negative :: string where
  "feed_negative =
     ''Date,Amount,Payer Name'' @ [CHR 0x0A] @ ''2025-01-15,50000,John Doe'' @ [CHR 0x0A]
       @ ''2025-01-16,-1000,Jane Smith''"

definition feed_no_name_column :: string where
  "feed_no_name_column = ''Date,Amount'' @ [CHR 0x0A] @ ''2025-01-15,500''"

definition negative_row :: string where
  "negative_row = ''2025-01-16,-1000,Jane Smith''"

definition sample_env :: gen_env where
  "sample_env =
     \<lparr> now = 1739145600000,
       nanoid = (\<lambda>i. if i = 0 then ''V1StGX'' else ''x_9-Ab''),
       month_year_text = (\<lambda>t. ''February 2025''),
       insertId_reported = True \<rparr>"

definition sample_leases :: "Lease list" where
  "sample_leases =
     [\<lparr> lease_id = 1, monthlyRent = ''10000.00'', serviceCharge = ''500.00'', lease_state = active \<rparr>,
      \<lparr> lease_id = 2, monthlyRent = ''7500.00'', serviceCharge = ''250.00'', lease_state = terminated \<rparr>,
      \<lparr> lease_id = 3, monthlyRent = ''0.10'', serviceCharge = ''0.20'', lease_state = active \<rparr>]"

definition leases_db :: database where
  "leases_db =
     \<lparr> leases = sample_leases, pendingInvoices = [], invoices = [],
       invoiceGenerationLogs = [], tenants = [] \<rparr>"

text \<open>The drafts of the sample run as the pending table keeps them.\<close>

definition sample_run_rows :: "PendingInvoice list" where
  "sample_run_rows =
     [\<lparr> leaseId = 1, invoiceNumber = ''INV-202502-V1STGX'', invoiceDate = 1739145600000,
        dueDate = 1741564800000, periodStart = 1738368000000, periodEnd = 1740700800000,
        rentAmount = Str ''10000.00'', serviceChargeAmount = Str ''500.00'',
        utilitiesAmount = Str ''0.00'', totalAmount = Str ''10500.00'',
        invoice_notes = ''Auto-generated invoice for February 2025'',
        generationLogId = 1 \<rparr>,
      \<lparr> leaseId = 3, invoiceNumber = ''INV-202502-X_9-AB'', invoiceDate = 1739145600000,
        dueDate = 1741564800000, periodStart = 1738368000000, periodEnd = 1740700800000,
        rentAmount = Str ''0.10'', serviceChargeAmount = Str ''0.20'',
        utilitiesAmount = Str ''0.00'', totalAmount = Str ''0.30'',
        invoice_notes = ''Auto-generated invoice for February 2025'',
        generationLogId = 1 \<rparr>]"

section \<open>Properties of finalization\<close>

lemma finalize_success_shape:
  assumes "finalizePendingInvoices flt logId (Some db) = (Success n, dbo')"
  shows "\<exists>db'. dbo' = Some db' \<and>
           n = length (drafts_of logId db) \<and> 0 < n \<and>
           invoices db' = invoices db @ map toInvoice (drafts_of logId db) \<and>
           pendingInvoices db' = filter (\<lambda>p. generationLogId p \<noteq> logId) (pendingInvoices db)"
  using assms
  by (auto simp: finalizePendingInvoices_def insert_invoices_def drafts_of_def Let_def
           split: option.splits if_splits sum.splits)

lemma carries_toInvoice: "carries p (toInvoice p)"
  by (simp add: carries_def same_amounts_def toInvoice_def)

lemma list_all2_carries_map: "list_all2 carries ps (map toInvoice ps)"
  by (induction ps) (simp_all add: carries_toInvoice)

lemma finalize_outcomes:
  assumes "finalizePendingInvoices flt logId (Some db) = (r, dbo')"
  shows "\<exists>db'. dbo' = Some db' \<and>
           (invoices db' = invoices db \<and> pendingInvoices db' = pendingInvoices db
            \<or> invoices db' = invoices db @ map toInvoice (drafts_of logId db) \<and>
              (pendingInvoices db' = pendingInvoices db \<or>
               pendingInvoices db' = filter (\<lambda>p. generationLogId p \<noteq> logId) (pendingInvoices db)))"
  using assms
  by (auto simp: finalizePendingInvoices_def insert_invoices_def drafts_of_def Let_def
           split: option.splits if_splits sum.splits)

lemma sample_finalize:
  "finalizePendingInvoices Map.empty 1 (Some sample_db) =
     (Success 1,
      Some (sample_db\<lparr> pendingInvoices := [], invoices := [toInvoice sample_draft],
              invoiceGenerationLogs := [sample_log\<lparr>log_state := finalized, details := finalized_details 1\<rparr>] \<rparr>))"
  by (simp add: finalizePendingInvoices_def insert_invoices_def sample_db_def sample_draft_def
        sample_log_def mark_finalized_def Let_def)




text \<open>
  C3, as the code has it. After a finalize that returned its success object, a second
  finalize of the same log changes no table, whatever happens to its statements, and when
  its select goes through it returns nothing at all (a bare return): it does not return a
  success object with a count of zero.
\<close>

theorem finalize_twice:
  assumes "finalizePendingInvoices flt logId (Some db) = (Success n, Some db')"
  shows "snd (finalizePendingInvoices flt' logId (Some db')) = Some db' \<and>
         (flt' 0 = None \<longrightarrow> fst (finalizePendingInvoices flt' logId (Some db')) = Undefined)"
proof -
  from finalize_success_shape[OF assms]
  have "pendingInvoices db' = filter (\<lambda>p. generationLogId p \<noteq> logId) (pendingInvoices db)"
    by auto
  then have "filter (\<lambda>p. generationLogId p = logId) (pendingInvoices db') = []"
    by simp
  then show ?thesis
    by (simp add: finalizePendingInvoices_def split: option.splits)
qed

theorem finalize_twice_witness:
  "finalizePendingInvoices Map.empty 1 (Some sample_db) =
     (Success 1,
      Some (sample_db\<lparr> pendingInvoices := [], invoices := [toInvoice sample_draft],
              invoiceGenerationLogs := [sample_log\<lparr>log_state := finalized, details := finalized_details 1\<rparr>] \<rparr>)) \<and>
   finalizePendingInvoices Map.empty 1
     (Some (sample_db\<lparr> pendingInvoices := [], invoices := [toInvoice sample_draft],
              invoiceGenerationLogs := [sample_log\<lparr>log_state := finalized, details := finalized_details 1\<rparr>] \<rparr>)) =
     (Undefined,
      Some (sample_db\<lparr> pendingInvoices := [], invoices := [toInvoice sample_draft],
              invoiceGenerationLogs := [sample_log\<lparr>log_state := finalized, details := finalized_details 1\<rparr>] \<rparr>))"
  using finalize_twice[OF sample_finalize, of Map.empty] sample_finalize
  by (simp add: prod_eq_iff)

text \<open>The claim as written fails: the second call does not report zero invoices finalized.\<close>

theorem finalize_twice_reports_nothing:
  "fst (finalizePendingInvoices Map.empty 1 (Some sample_db)) = Success 1 \<and>
   fst (finalizePendingInvoices Map.empty 1
          (snd (finalizePendingInvoices Map.empty 1 (Some sample_db)))) \<noteq> Success 0"
proof -
  have "fst (finalizePendingInvoices Map.empty 1
          (snd (finalizePendingInvoices Map.empty 1 (Some sample_db)))) = Undefined"
    unfolding sample_finalize by (simp add: finalizePendingInvoices_def)
  then show ?thesis
    by (simp add: sample_finalize)
qed

text \<open>
  C5. Insert before delete. Whatever statement of \<open>finalizePendingInvoices\<close> throws, the state
  it leaves is one of: nothing written; the invoices inserted and every draft still there
  (the duplicates); the invoices inserted and the drafts of the log deleted. So the drafts
  are never gone while their invoices are missing: in every outcome each draft of the log is
  still in the pending table or has its invoice in the invoices table.
\<close>

theorem finalize_insert_before_delete:
  assumes "finalizePendingInvoices flt logId (Some db) = (r, Some db')"
  shows "(pendingInvoices db' = pendingInvoices db \<or>
          (\<exists>created. invoices db' = invoices db @ created \<and>
             list_all2 carries (drafts_of logId db) created)) \<and>
         (\<forall>p \<in> set (drafts_of logId db).
            p \<in> set (pendingInvoices db') \<or> (\<exists>i \<in> set (invoices db'). carries p i))"
proof -
  from finalize_outcomes[OF assms]
  consider (none) "invoices db' = invoices db" "pendingInvoices db' = pendingInvoices db"
    | (ins) "invoices db' = invoices db @ map toInvoice (drafts_of logId db)"
    by auto
  then show ?thesis
  proof cases
    case none
    then show ?thesis by (auto simp: drafts_of_def)
  next
    case ins
    have "\<exists>i \<in> set (invoices db'). carries p i" if "p \<in> set (drafts_of logId db)" for p
      using that ins carries_toInvoice[of p] by auto
    moreover have "\<exists>created. invoices db' = invoices db @ created \<and>
             list_all2 carries (drafts_of logId db) created"
      using ins list_all2_carries_map by blast
    ultimately show ?thesis by blast
  qed
qed

lemma sample_finalize_delete_fails:
  "finalizePendingInvoices [2 \<mapsto> ''connection lost''] 1 (Some sample_db) =
     (Failure ''connection lost'', Some (sample_db\<lparr>invoices := [toInvoice sample_draft]\<rparr>))"
  by (simp add: finalizePendingInvoices_def insert_invoices_def sample_db_def sample_draft_def
        Let_def)

theorem finalize_insert_before_delete_witness:
  "finalizePendingInvoices [2 \<mapsto> ''connection lost''] 1 (Some sample_db) =
     (Failure ''connection lost'', Some (sample_db\<lparr>invoices := [toInvoice sample_draft]\<rparr>)) \<and>
   sample_draft \<in> set (pendingInvoices (sample_db\<lparr>invoices := [toInvoice sample_draft]\<rparr>)) \<and>
   (\<exists>i \<in> set (invoices (sample_db\<lparr>invoices := [toInvoice sample_draft]\<rparr>)).
      carries sample_draft i)"
proof -
  have d: "drafts_of 1 sample_db = [sample_draft]"
    by (simp add: drafts_of_def sample_db_def sample_draft_def)
  have p: "pendingInvoices (sample_db\<lparr>invoices := [toInvoice sample_draft]\<rparr>) = [sample_draft]"
    by (simp add: sample_db_def)
  from finalize_insert_before_delete[OF sample_finalize_delete_fails]
  have "\<exists>created. invoices (sample_db\<lparr>invoices := [toInvoice sample_draft]\<rparr>) =
           invoices sample_db @ created \<and> list_all2 carries [sample_draft] created"
    unfolding d by (simp add: sample_db_def carries_toInvoice)
  then have "carries sample_draft (toInvoice sample_draft)"
    by (auto simp: sample_db_def list_all2_Cons1)
  with p sample_finalize_delete_fails show ?thesis
    by simp
qed

section \<open>Properties of the arithmetic\<close>

lemma powi_nat: "0 \<le> k \<Longrightarrow> (2::rat) powi k = 2 ^ nat k"
  by (simp add: power_int_def)

lemma bit_length_bounds:
  "0 < n \<Longrightarrow> 1 \<le> bit_length n \<and> 2 ^ nat (bit_length n - 1) \<le> n \<and> n < 2 ^ nat (bit_length n)"
proof (induction n rule: bit_length.induct)
  case (1 n)
  have bl: "bit_length n = 1 + bit_length (n div 2)"
    using 1(2) by (subst bit_length.simps) simp
  show ?case
  proof (cases "n div 2 \<le> 0")
    case True
    with 1(2) have "n = 1" by presburger
    then show ?thesis by (simp add: bit_length.simps)
  next
    case False
    then have pos: "0 < n div 2" by simp
    from 1(1)[OF _ pos] 1(2)
    have ih: "1 \<le> bit_length (n div 2)"
      "2 ^ nat (bit_length (n div 2) - 1) \<le> n div 2" "n div 2 < 2 ^ nat (bit_length (n div 2))"
      by auto
    define k where "k = nat (bit_length (n div 2) - 1)"
    have b': "nat (bit_length (n div 2)) = Suc k" using ih(1) by (simp add: k_def)
    have b1: "nat (bit_length n - 1) = Suc k" using ih(1) by (simp add: bl k_def)
    have b2: "nat (bit_length n) = Suc (Suc k)" using ih(1) by (simp add: bl k_def)
    have "(2::int) ^ nat (bit_length n - 1) = 2 * 2 ^ k" by (simp add: b1)
    also have "\<dots> \<le> 2 * (n div 2)" using ih(2) by (simp add: k_def)
    also have "\<dots> \<le> n" by presburger
    finally have lo: "2 ^ nat (bit_length n - 1) \<le> n" .
    have "n < 2 * (n div 2 + 1)" by presburger
    also have "\<dots> \<le> 2 * 2 ^ Suc k" using ih(3) by (simp add: b')
    also have "\<dots> = 2 ^ nat (bit_length n)" by (simp add: b2)
    finally show ?thesis using lo ih(1) bl by simp
  qed
qed

lemma ilog2_bounds:
  assumes "0 < x"
  shows "2 powi ilog2 x \<le> x \<and> x < 2 powi (ilog2 x + 1)"
proof (cases "1 \<le> x")
  case True
  define n where "n = \<lfloor>x\<rfloor>"
  have npos: "0 < n" using True by (simp add: n_def)
  have nx: "of_int n \<le> x" "x < of_int n + 1" unfolding n_def by linarith+
  from bit_length_bounds[OF npos]
  have b: "1 \<le> bit_length n" "2 ^ nat (bit_length n - 1) \<le> n" "n < 2 ^ nat (bit_length n)"
    by auto
  define e0 where "e0 = bit_length n - 1"
  have e0: "2 powi e0 = (2::rat) ^ nat (bit_length n - 1)"
    unfolding e0_def using b(1) by (intro powi_nat) simp
  have e1: "2 powi (e0 + 1) = (2::rat) ^ nat (bit_length n)"
    unfolding e0_def using b(1) by (simp add: powi_nat)
  have lo: "2 powi e0 \<le> x"
  proof -
    have "(of_int (2 ^ nat (bit_length n - 1)) :: rat) \<le> of_int n"
      using b(2) by (simp only: of_int_le_iff)
    then have "(2::rat) ^ nat (bit_length n - 1) \<le> of_int n" by simp
    then show ?thesis using nx(1) e0 by linarith
  qed
  have hi: "x < 2 powi (e0 + 1)"
  proof -
    have "n + 1 \<le> 2 ^ nat (bit_length n)" using b(3) by simp
    then have "(of_int (n + 1) :: rat) \<le> of_int (2 ^ nat (bit_length n))"
      by (simp only: of_int_le_iff)
    then have "(of_int n + 1 :: rat) \<le> 2 ^ nat (bit_length n)" by simp
    then show ?thesis using nx(2) e1 by linarith
  qed
  have "ilog2 x = e0"
    using True hi by (simp add: ilog2_def Let_def e0_def n_def)
  then show ?thesis using lo hi by simp
next
  case False
  then have x1: "x < 1" by simp
  define z where "z = 1 / x"
  have z1: "1 < z" using assms x1 by (simp add: z_def)
  define n where "n = \<lfloor>z\<rfloor>"
  have npos: "0 < n" using z1 by (simp add: n_def)
  have nz: "of_int n \<le> z" "z < of_int n + 1" unfolding n_def by linarith+
  from bit_length_bounds[OF npos]
  have b: "1 \<le> bit_length n" "2 ^ nat (bit_length n - 1) \<le> n" "n < 2 ^ nat (bit_length n)"
    by auto
  define e0 where "e0 = - bit_length n"
  have xz: "x = 1 / z" using assms by (simp add: z_def)
  have e0: "2 powi e0 = 1 / (2::rat) ^ nat (bit_length n)"
  proof -
    have "(2::rat) powi (- bit_length n) = inverse (2 powi bit_length n)"
      by (rule power_int_minus)
    also have "(2::rat) powi bit_length n = 2 ^ nat (bit_length n)"
      using b(1) by (intro powi_nat) simp
    finally show ?thesis by (simp add: e0_def field_simps)
  qed
  have e1: "2 powi (e0 + 1) = 1 / (2::rat) ^ nat (bit_length n - 1)"
  proof -
    have "e0 + 1 = - (bit_length n - 1)" by (simp add: e0_def)
    then have "(2::rat) powi (e0 + 1) = inverse (2 powi (bit_length n - 1))"
      by (simp only: power_int_minus)
    also have "(2::rat) powi (bit_length n - 1) = 2 ^ nat (bit_length n - 1)"
      using b(1) by (intro powi_nat) simp
    finally show ?thesis by (simp add: field_simps)
  qed
  have zhi: "z < 2 ^ nat (bit_length n)"
  proof -
    have "n + 1 \<le> 2 ^ nat (bit_length n)" using b(3) by simp
    then have "(of_int (n + 1) :: rat) \<le> of_int (2 ^ nat (bit_length n))"
      by (simp only: of_int_le_iff)
    then have "(of_int n + 1 :: rat) \<le> 2 ^ nat (bit_length n)" by simp
    then show ?thesis using nz(2) by linarith
  qed
  have zlo: "2 ^ nat (bit_length n - 1) \<le> z"
  proof -
    have "(of_int (2 ^ nat (bit_length n - 1)) :: rat) \<le> of_int n"
      using b(2) by (simp only: of_int_le_iff)
    then have "(2::rat) ^ nat (bit_length n - 1) \<le> of_int n" by simp
    then show ?thesis using nz(1) by linarith
  qed
  have lo: "2 powi e0 < x"
    unfolding e0 xz using zhi z1 by (simp add: field_simps)
  have hi: "x \<le> 2 powi (e0 + 1)"
    unfolding e1 xz using zlo z1 by (simp add: field_simps)
  have e2: "2 powi (e0 + 1 + 1) = 2 * (2::rat) powi (e0 + 1)"
    by (simp add: power_int_add)
  have pos1: "0 < (2::rat) powi (e0 + 1)" by simp
  show ?thesis
  proof (cases "2 powi (e0 + 1) \<le> x")
    case True
    then have "ilog2 x = e0 + 1"
      using False by (simp add: ilog2_def Let_def e0_def n_def z_def)
    moreover have "x < 2 powi (e0 + 1 + 1)" using hi pos1 e2 by linarith
    ultimately show ?thesis using True by simp
  next
    case F: False
    then have "ilog2 x = e0"
      using False by (simp add: ilog2_def Let_def e0_def n_def z_def)
    then show ?thesis using lo F by simp
  qed
qed

lemma round_half_even_err: "\<bar>of_int (round_half_even y) - y\<bar> \<le> 1 / 2"
proof -
  have "of_int \<lfloor>y\<rfloor> \<le> y" "y < of_int \<lfloor>y\<rfloor> + 1" by linarith+
  then show ?thesis
    by (auto simp: round_half_even_def Let_def)
qed

lemma round_half_even_nonneg: "0 \<le> y \<Longrightarrow> 0 \<le> round_half_even y"
  by (auto simp: round_half_even_def Let_def)


lemma round_double_err:
  "\<bar>round_double x - x\<bar> \<le> \<bar>x\<bar> / 2 ^ 53 + 2 powi (- 1075)"
proof (cases "x = 0")
  case True
  then show ?thesis by (simp add: round_double_def)
next
  case False
  define a where "a = \<bar>x\<bar>"
  have apos: "0 < a" using False by (simp add: a_def)
  define k where "k = ilog2 a"
  define e where "e = max k (- 1022) - 52"
  define p :: rat where "p = 2 powi e"
  define m where "m = round_half_even (a / p)"
  have ppos: "0 < p" by (simp add: p_def)
  have rd: "round_double x = sgn x * (of_int m * p)"
    using False by (simp add: round_double_def Let_def a_def k_def e_def p_def m_def)
  have xs: "x = sgn x * a" by (simp add: a_def sgn_mult_abs)
  have "round_double x - x = sgn x * (of_int m * p - a)"
    by (subst rd, subst (2) xs) (simp add: algebra_simps)
  then have "\<bar>round_double x - x\<bar> = \<bar>of_int m * p - a\<bar>"
    using False by (simp add: abs_mult abs_sgn_eq)
  also have "of_int m * p - a = (of_int m - a / p) * p"
    using ppos by (simp add: field_simps)
  also have "\<bar>(of_int m - a / p) * p\<bar> = \<bar>of_int m - a / p\<bar> * p"
    using ppos by (simp add: abs_mult)
  also have "\<dots> \<le> 1 / 2 * p"
    using round_half_even_err[of "a / p"] ppos unfolding m_def
    by (intro mult_right_mono) simp_all
  finally have err: "\<bar>round_double x - x\<bar> \<le> p / 2" by simp
  show ?thesis
  proof (cases "- 1022 \<le> k")
    case True
    then have "e = k + (- 52)" by (simp add: e_def)
    moreover have "(2::rat) powi (k + (- 52)) = 2 powi k * 2 powi (- 52)"
      by (rule power_int_add) simp
    ultimately have "p = 2 powi k * 2 powi (- 52)"
      unfolding p_def by (simp only:)
    moreover have "(2::rat) powi (- 52) = 1 / 2 ^ 52"
      by (simp add: power_int_minus field_simps)
    ultimately have "p / 2 = 2 powi k / 2 ^ 53"
      by simp
    also have "\<dots> \<le> a / 2 ^ 53"
      using ilog2_bounds[OF apos] by (simp add: k_def divide_right_mono)
    finally have "p / 2 \<le> \<bar>x\<bar> / 2 ^ 53" by (simp add: a_def)
    moreover have "(0::rat) \<le> 2 powi (- 1075)" by simp
    ultimately show ?thesis using err by linarith
  next
    case F: False
    then have "e = - 1074" by (simp add: e_def)
    then have "p / 2 = 2 powi (- 1075)"
      by (simp add: p_def power_int_minus field_simps)
    moreover have "0 \<le> \<bar>x\<bar> / 2 ^ 53" by simp
    ultimately show ?thesis using err by linarith
  qed
qed

lemma round_double_nonneg: "0 \<le> x \<Longrightarrow> 0 \<le> round_double x"
  by (auto simp: round_double_def Let_def sgn_if intro!: mult_nonneg_nonneg round_half_even_nonneg)

lemma round_double_nonpos: "x \<le> 0 \<Longrightarrow> round_double x \<le> 0"
proof -
  assume x: "x \<le> 0"
  show ?thesis
  proof (cases "x = 0")
    case True then show ?thesis by (simp add: round_double_def)
  next
    case False
    with x have s: "sgn x = - 1" by (simp add: sgn_if)
    define e where "e = max (ilog2 \<bar>x\<bar>) (- 1022) - 52"
    have "0 \<le> round_half_even (\<bar>x\<bar> / 2 powi e)"
      by (intro round_half_even_nonneg) simp
    then have "0 \<le> of_int (round_half_even (\<bar>x\<bar> / 2 powi e)) * (2::rat) powi e"
      by (intro mult_nonneg_nonneg) simp_all
    then show ?thesis
      using False s by (simp add: round_double_def Let_def e_def)
  qed
qed

lemma tiny_le: "(2::rat) powi (- 1075) \<le> 1 / 2 ^ 53"
proof -
  have "(2::rat) powi (- 1075) \<le> 2 powi (- 53)"
    by (rule power_int_increasing) simp_all
  then show ?thesis by (simp add: power_int_minus field_simps)
qed

lemma round_double_upper:
  assumes "0 \<le> x" "x \<le> c"
  shows "round_double x \<le> c + c / 2 ^ 53 + 1 / 2 ^ 53"
proof -
  have "round_double x - x \<le> \<bar>x\<bar> / 2 ^ 53 + 2 powi (- 1075)"
    using round_double_err[of x] by linarith
  moreover have "\<bar>x\<bar> / 2 ^ 53 \<le> c / 2 ^ 53"
    using assms by (simp add: divide_right_mono)
  ultimately show ?thesis using tiny_le assms by linarith
qed

lemma ratio_times_100:
  fixes n d q :: rat
  assumes "q \<le> 1" and that: "n / d = q"
  shows "js_mul (js_div n d) 100 < 201 / 2"
proof (cases "0 \<le> q")
  case True
  have r1: "round_double q \<le> 1 + 1 / 2 ^ 53 + 1 / 2 ^ 53"
    using round_double_upper[OF True assms(1)] by simp
  have r1n: "0 \<le> round_double q" using True by (rule round_double_nonneg)
  have "round_double (round_double q * 100) \<le>
        (1 + 1 / 2 ^ 53 + 1 / 2 ^ 53) * 100 + ((1 + 1 / 2 ^ 53 + 1 / 2 ^ 53) * 100) / 2 ^ 53 + 1 / 2 ^ 53"
    by (rule round_double_upper) (use r1 r1n in simp_all)
  also have "\<dots> < 201 / 2" by simp
  finally show ?thesis using that by (simp add: js_mul_def js_div_def)
next
  case False
  then have "round_double q \<le> 0" by (intro round_double_nonpos) simp
  then have "round_double q * 100 \<le> 0" by simp
  then have "round_double (round_double q * 100) \<le> 0" by (rule round_double_nonpos)
  then show ?thesis using that by (simp add: js_mul_def js_div_def)
qed

lemma calculateSimilarity_upper: "calculateSimilarity a b < 201 / 2"
proof -
  have *: "js_mul (js_div (of_int (int l - int e)) (of_nat l)) 100 < 201 / 2" if "0 < l" for l e :: nat
  proof (rule ratio_times_100[OF _ refl])
    have "(of_int (int l - int e) :: rat) \<le> of_nat l" by simp
    then show "(of_int (int l - int e) :: rat) / of_nat l \<le> 1"
      using that by (simp add: divide_le_eq)
  qed
  show ?thesis
  proof (cases "trim (toLowerCase a) = trim (toLowerCase b)")
    case True
    then show ?thesis by (simp add: calculateSimilarity_def)
  next
    case False
    define s1 where "s1 = trim (toLowerCase a)"
    define s2 where "s2 = trim (toLowerCase b)"
    define longer where "longer = (if length s1 > length s2 then s1 else s2)"
    define shorter where "shorter = (if length s1 > length s2 then s2 else s1)"
    show ?thesis
    proof (cases "length longer = 0")
      case True
      then have "calculateSimilarity a b = 100"
        unfolding calculateSimilarity_def Let_def longer_def s1_def s2_def
        using False by simp
      then show ?thesis by simp
    next
      case F2: False
      then have "calculateSimilarity a b =
          js_mul (js_div (of_int (int (length longer) - int (getEditDistance longer shorter)))
                         (of_nat (length longer))) 100"
        unfolding calculateSimilarity_def Let_def longer_def shorter_def s1_def s2_def
        using False by (simp only: if_False)
      moreover have "0 < length longer" using F2 by simp
      ultimately show ?thesis using * by simp
    qed
  qed
qed

lemma Math_round_similarity: "Math_round (calculateSimilarity a b) \<le> 100"
  using calculateSimilarity_upper[of a b] by (simp add: Math_round_def floor_le_iff)

lemma Math_round_floor: "60 < x \<Longrightarrow> 60 \<le> Math_round x"
  by (simp add: Math_round_def le_floor_iff)

section \<open>Properties of the amounts\<close>

text \<open>Parsing: a literal within the range of the amounts is read as the nearest Number,
  and the sum of two of them is within \<open>1 / 10 ^ 6\<close> of the exact sum.\<close>

lemma round_double_close:
  assumes "\<bar>x\<bar> \<le> B"
  shows "\<bar>round_double x - x\<bar> \<le> (B + 1) / 2 ^ 53"
proof -
  have "\<bar>x\<bar> / 2 ^ 53 \<le> B / 2 ^ 53" using assms by (simp add: divide_right_mono)
  with round_double_err[of x] tiny_le show ?thesis
    by (simp add: add_divide_distrib)
qed

lemma to_number_finite:
  assumes "\<bar>x\<bar> \<le> 2 ^ 40"
  shows "to_number x = Finite (round_double x)"
proof -
  define r where "r = round_double x"
  have "\<not> 1024 \<le> ilog2 \<bar>r\<bar>" if "r \<noteq> 0"
  proof
    assume big: "1024 \<le> ilog2 \<bar>r\<bar>"
    have "0 < \<bar>r\<bar>" using that by simp
    from ilog2_bounds[OF this] have "2 powi ilog2 \<bar>r\<bar> \<le> \<bar>r\<bar>" by simp
    moreover have "(2::rat) powi 42 \<le> 2 powi ilog2 \<bar>r\<bar>"
      using big by (intro power_int_increasing) simp_all
    moreover have "(2::rat) powi 42 = 2 ^ 42" by (simp add: power_int_def)
    ultimately have "(2::rat) ^ 42 \<le> \<bar>r\<bar>" by simp
    moreover have "\<bar>r - x\<bar> \<le> (2 ^ 40 + 1) / 2 ^ 53"
      unfolding r_def using assms by (rule round_double_close)
    ultimately show False using assms unfolding abs_le_iff
      by (cases "0 \<le> r") (simp_all add: abs_if)
  qed
  then show ?thesis by (auto simp: to_number_def Let_def r_def)
qed

lemma unsigned_value_not_Infinity:
  "unsigned_value s = Some v \<Longrightarrow> \<not> starts_with ''Infinity'' s"
  by (cases s) (auto simp: unsigned_value_def Let_def is_digit_def split: if_splits)

lemma parseFloat_literal:
  assumes "literal_value s = Some v"
  shows "parseFloat (Some s) = to_number v"
proof (cases "trimStart s")
  case Nil
  with assms show ?thesis by (simp add: literal_value_def)
next
  case (Cons c cs)
  have "\<not> starts_with ''Infinity'' cs" if "c = CHR ''-'' \<or> c = CHR ''+''"
    using assms Cons that unsigned_value_not_Infinity[of cs]
    by (auto simp: literal_value_def split: if_splits)
  moreover have "\<not> starts_with ''Infinity'' (c # cs)" if "c \<noteq> CHR ''-''" "c \<noteq> CHR ''+''"
    using assms Cons that unsigned_value_not_Infinity[of "c # cs"]
    by (auto simp: literal_value_def split: if_splits)
  ultimately show ?thesis
    using assms Cons by (auto simp: parseFloat_def)
qed

lemma total_close:
  assumes r: "\<bar>r\<bar> \<le> 10 ^ 8" and s: "\<bar>s\<bar> \<le> 10 ^ 8"
  shows "\<exists>t. js_add (js_add (to_number r) (to_number s)) (Finite 0) = Finite t \<and>
           \<bar>t - (r + s)\<bar> < 1 / 10 ^ 6"
proof -
  define a where "a = round_double r"
  define b where "b = round_double s"
  define c where "c = round_double (a + b)"
  define t where "t = round_double c"
  have ea: "\<bar>a - r\<bar> \<le> (10 ^ 8 + 1) / 2 ^ 53"
    unfolding a_def using r by (rule round_double_close)
  have eb: "\<bar>b - s\<bar> \<le> (10 ^ 8 + 1) / 2 ^ 53"
    unfolding b_def using s by (rule round_double_close)
  have ab: "\<bar>a + b\<bar> \<le> 3 * 10 ^ 8"
    using ea eb r s unfolding abs_le_iff by simp
  have ec: "\<bar>c - (a + b)\<bar> \<le> (3 * 10 ^ 8 + 1) / 2 ^ 53"
    unfolding c_def using ab by (rule round_double_close)
  have cb: "\<bar>c\<bar> \<le> 4 * 10 ^ 8"
    using ec ab unfolding abs_le_iff by simp
  have et: "\<bar>t - c\<bar> \<le> (4 * 10 ^ 8 + 1) / 2 ^ 53"
    unfolding t_def using cb by (rule round_double_close)
  have n1: "to_number r = Finite a" unfolding a_def using r by (intro to_number_finite) simp
  have n2: "to_number s = Finite b" unfolding b_def using s by (intro to_number_finite) simp
  have n3: "to_number (a + b) = Finite c" unfolding c_def using ab by (intro to_number_finite) simp
  have n4: "to_number c = Finite t" unfolding t_def using cb by (intro to_number_finite) simp
  have "js_add (js_add (to_number r) (to_number s)) (Finite 0) = Finite t"
    by (simp add: n1 n2 n3 n4)
  moreover have "\<bar>t - (r + s)\<bar> < 1 / 10 ^ 6"
    using ea eb ec et unfolding abs_le_iff abs_less_iff by simp
  ultimately show ?thesis by blast
qed

text \<open>The text of a column value is a literal, and denotes the value.\<close>

lemma of_char_digit_char: "0 \<le> d \<Longrightarrow> d \<le> 9 \<Longrightarrow> of_char (digit_char d) = 48 + d"
  by (simp add: digit_char_def)

lemma digit_value_digit_char: "0 \<le> d \<Longrightarrow> d \<le> 9 \<Longrightarrow> digit_value (digit_char d) = d"
  by (simp add: digit_value_def of_char_digit_char)

lemma is_digit_digit_char:
  assumes "0 \<le> d" "d \<le> 9"
  shows "is_digit (digit_char d)"
proof -
  from assms have "d = 0 \<or> d = 1 \<or> d = 2 \<or> d = 3 \<or> d = 4 \<or> d = 5 \<or> d = 6 \<or> d = 7 \<or> d = 8 \<or> d = 9"
    by presburger
  moreover have "is_digit (digit_char 0)" "is_digit (digit_char 1)" "is_digit (digit_char 2)"
    "is_digit (digit_char 3)" "is_digit (digit_char 4)" "is_digit (digit_char 5)"
    "is_digit (digit_char 6)" "is_digit (digit_char 7)" "is_digit (digit_char 8)"
    "is_digit (digit_char 9)"
    by code_simp+
  ultimately show ?thesis by auto
qed

lemma digits_value_snoc: "digits_value (ds @ [c]) = 10 * digits_value ds + digit_value c"
  by (simp add: digits_value_def)

lemma digits_of_props:
  "0 \<le> n \<Longrightarrow> digits_of n \<noteq> [] \<and> list_all is_digit (digits_of n) \<and> digits_value (digits_of n) = n"
proof (induction n rule: digits_of.induct)
  case (1 n)
  show ?case
  proof (cases "n < 10")
    case True
    with 1(2) show ?thesis
      by (simp add: digits_of.simps[of n] is_digit_digit_char digits_value_def digit_value_digit_char)
  next
    case False
    with 1 have ih: "digits_of (n div 10) \<noteq> []" "list_all is_digit (digits_of (n div 10))"
      "digits_value (digits_of (n div 10)) = n div 10"
      by simp_all
    have m: "0 \<le> n mod 10" "n mod 10 \<le> 9" by simp_all
    show ?thesis
      using False ih m
      by (simp add: digits_of.simps[of n] digits_value_snoc is_digit_digit_char
            digit_value_digit_char)
  qed
qed

lemma two_digits:
  assumes "0 \<le> m" "m < 100"
  shows "length (padStart2 (digits_of m)) = 2 \<and> list_all is_digit (padStart2 (digits_of m)) \<and>
         digits_value (padStart2 (digits_of m)) = m"
proof (cases "m < 10")
  case True
  have "is_digit CHR ''0''" by (simp add: is_digit_def)
  moreover have "digit_value CHR ''0'' = 0" by (simp add: digit_value_def)
  ultimately show ?thesis
    using True assms
    by (simp add: digits_of.simps[of m] padStart2_def is_digit_digit_char digits_value_def
          digit_value_digit_char)
next
  case False
  with assms have d: "m div 10 < 10" "0 \<le> m div 10" "0 \<le> m mod 10" "m mod 10 \<le> 9" by simp_all
  have "digits_of m = [digit_char (m div 10), digit_char (m mod 10)]"
    using False d by (simp add: digits_of.simps[of m] digits_of.simps[of "m div 10"])
  then show ?thesis
    using d by (simp add: padStart2_def is_digit_digit_char digits_value_def digit_value_digit_char)
qed

lemma not_digit_point: "\<not> is_digit CHR ''.''"
  by (simp add: is_digit_def)

lemma unsigned_decimal:
  assumes ip: "ip \<noteq> []" "list_all is_digit ip" and fp: "list_all is_digit fp"
  shows "unsigned_value (ip @ ''.'' @ fp) =
           Some (of_int (digits_value ip) + of_int (digits_value fp) / 10 ^ length fp)"
proof -
  have all: "\<And>x. x \<in> set ip \<Longrightarrow> is_digit x" "\<And>x. x \<in> set fp \<Longrightarrow> is_digit x"
    using ip fp by (simp_all add: list_all_iff)
  have t: "takeWhile is_digit (ip @ CHR ''.'' # fp) = ip"
    using all(1) not_digit_point by simp
  have d: "dropWhile is_digit (ip @ CHR ''.'' # fp) = CHR ''.'' # fp"
    using all(1) not_digit_point by simp
  have tf: "takeWhile is_digit fp = fp" using all(2) by simp
  have df: "dropWhile is_digit fp = []" using all(2) by simp
  show ?thesis
    using ip(1) by (simp add: unsigned_value_def Let_def t d tf df exponent_of_def)
qed

lemma is_space_not_digit: "is_digit c \<Longrightarrow> \<not> is_space c"
  by (auto simp: is_digit_def is_space_def)

lemma hundredths_split:
  fixes a :: int
  shows "(of_int (a div 100) + of_int (a mod 100) / 10 ^ 2 :: rat) = of_int a / 100"
proof -
  have "of_int a = (of_int (100 * (a div 100) + a mod 100) :: rat)" by simp
  also have "\<dots> = 100 * of_int (a div 100) + of_int (a mod 100)" by (simp only: of_int_add of_int_mult of_int_numeral)
  finally show ?thesis by (simp add: field_simps)
qed

lemma literal_value_decimal_text: "literal_value (decimal_text c) = Some (of_int c / 100)"
proof -
  define a where "a = \<bar>c\<bar>"
  define ip where "ip = digits_of (a div 100)"
  define fp where "fp = padStart2 (digits_of (a mod 100))"
  have a: "0 \<le> a" by (simp add: a_def)
  have ip: "ip \<noteq> []" "list_all is_digit ip" "digits_value ip = a div 100"
    using digits_of_props[of "a div 100"] a by (simp_all add: ip_def pos_imp_zdiv_nonneg_iff)
  have fp: "length fp = 2" "list_all is_digit fp" "digits_value fp = a mod 100"
    using two_digits[of "a mod 100"] by (simp_all add: fp_def)
  have "unsigned_value (ip @ ''.'' @ fp) = Some (of_int a / 100)"
    using unsigned_decimal[OF ip(1,2) fp(2)] by (simp only: ip(3) fp(1,3) hundredths_split)
  then have u: "unsigned_value (ip @ CHR ''.'' # fp) = Some (of_int a / 100)" by simp
  obtain d ds where ds: "ip = d # ds" "is_digit d" using ip(1,2) by (cases ip) auto
  have nd: "d \<noteq> CHR ''-''" "d \<noteq> CHR ''+''" "\<not> is_space d"
    using ds(2) by (auto simp: is_digit_def is_space_def)
  show ?thesis
  proof (cases "c < 0")
    case True
    have e: "decimal_text c = CHR ''-'' # (ip @ ''.'' @ fp)"
      using True by (simp add: decimal_text_def ip_def fp_def a_def)
    have "\<not> is_space CHR ''-''" by (simp add: is_space_def)
    then have "trimStart (decimal_text c) = CHR ''-'' # (ip @ ''.'' @ fp)"
      by (simp add: e trimStart_def)
    then have "literal_value (decimal_text c) = Some (- (of_int a / 100))"
      by (simp add: literal_value_def u)
    then show ?thesis using True by (simp add: a_def)
  next
    case False
    have e: "decimal_text c = d # (ds @ ''.'' @ fp)"
      using False by (simp add: decimal_text_def ip_def[symmetric] fp_def[symmetric] a_def[symmetric] ds(1))
    have "trimStart (decimal_text c) = d # (ds @ ''.'' @ fp)"
      using nd(3) by (simp add: e trimStart_def)
    moreover have "unsigned_value (d # ds @ CHR ''.'' # fp) = Some (of_int a / 100)"
      using u by (simp add: ds(1))
    ultimately have "literal_value (decimal_text c) = Some (of_int a / 100)"
      using nd by (simp add: literal_value_def)
    then show ?thesis using False by (simp add: a_def)
  qed
qed

lemma round_half_away_unique:
  assumes "\<bar>y - of_int k\<bar> < 1 / 2"
  shows "round_half_away y = k"
proof (cases "0 \<le> y")
  case True
  have "\<lfloor>y + 1 / 2\<rfloor> = k"
    by (rule floor_unique) (use assms in \<open>simp_all add: abs_less_iff, linarith+\<close>)
  then show ?thesis using True by (simp add: round_half_away_def)
next
  case False
  have "\<lfloor>- y + 1 / 2\<rfloor> = - k"
    by (rule floor_unique) (use assms in \<open>simp_all add: abs_less_iff, linarith+\<close>)
  then show ?thesis using False by (simp add: round_half_away_def)
qed

lemma to_number_Finite: "to_number d = Finite x \<Longrightarrow> round_double d = x"
  by (simp add: to_number_def Let_def split: if_splits)

lemma toString_digits_prints: "toString_digits x k = Some d \<Longrightarrow> round_double d = x"
  by (auto simp: toString_digits_def Let_def to_number_Finite split: if_splits)

lemma toString_search_prints: "toString_search x k = Some d \<Longrightarrow> round_double d = x"
proof (induction x k rule: toString_search.induct)
  case (1 x k)
  show ?case
  proof (cases "toString_digits x k")
    case None
    with 1 show ?thesis by (simp add: toString_search.simps[of x k] split: if_splits)
  next
    case (Some e)
    with 1(2) have "d = e" by (simp add: toString_search.simps[of x k] split: if_splits)
    with Some show ?thesis by (simp add: toString_digits_prints)
  qed
qed

lemma toString_value_err:
  "\<bar>toString_value q - q\<bar> \<le> \<bar>toString_value q\<bar> / 2 ^ 53 + 2 powi (- 1075)"
proof (cases "q = 0")
  case True
  then show ?thesis by (simp add: toString_value_def)
next
  case False
  show ?thesis
  proof (cases "toString_search \<bar>q\<bar> 1")
    case None
    then show ?thesis using False by (simp add: toString_value_def)
  next
    case (Some d)
    then have v: "toString_value q = sgn q * d" using False by (simp add: toString_value_def)
    from Some have "round_double d = \<bar>q\<bar>" by (rule toString_search_prints)
    with round_double_err[of d] have e: "\<bar>\<bar>q\<bar> - d\<bar> \<le> \<bar>d\<bar> / 2 ^ 53 + 2 powi (- 1075)" by simp
    have "sgn q * d - q = sgn q * (d - \<bar>q\<bar>)"
      using mult_sgn_abs[of q] by (simp add: algebra_simps)
    then have "\<bar>sgn q * d - q\<bar> = \<bar>d - \<bar>q\<bar>\<bar>"
      using False by (simp add: abs_mult abs_sgn_eq)
    moreover have "\<bar>sgn q * d\<bar> = \<bar>d\<bar>" using False by (simp add: abs_mult abs_sgn_eq)
    ultimately show ?thesis using e unfolding v by (simp add: abs_minus_commute)
  qed
qed

lemma toString_value_close:
  assumes "\<bar>q\<bar> \<le> 4 * 10 ^ 8"
  shows "\<bar>toString_value q - q\<bar> < 1 / 10 ^ 7"
proof -
  define d where "d = toString_value q"
  have e: "\<bar>d - q\<bar> \<le> \<bar>d\<bar> / 2 ^ 53 + 1 / 2 ^ 53"
    using toString_value_err[of q] tiny_le unfolding d_def by linarith
  have "\<bar>d\<bar> \<le> \<bar>q\<bar> + \<bar>d - q\<bar>" by linarith
  moreover have "\<bar>d\<bar> / 2 ^ 53 \<le> \<bar>d\<bar> / 2" by (simp add: field_simps)
  ultimately have "\<bar>d\<bar> \<le> 2 * (4 * 10 ^ 8) + 1" using e assms by simp
  then have "\<bar>d\<bar> / 2 ^ 53 \<le> (2 * (4 * 10 ^ 8) + 1) / 2 ^ 53" by (simp add: divide_right_mono)
  with e show ?thesis unfolding d_def by simp
qed

text \<open>What the column keeps of the Numbers of a draft.\<close>

lemma kept_hundredths:
  assumes "\<bar>q\<bar> \<le> 4 * 10 ^ 8" and "\<bar>q - of_int c / 100\<bar> < 1 / 10 ^ 6"
  shows "round_half_away (toString_value q * 100) = c"
proof (rule round_half_away_unique)
  have "\<bar>toString_value q - q\<bar> < 1 / 10 ^ 7"
    using assms(1) by (rule toString_value_close)
  with assms(2) show "\<bar>toString_value q * 100 - of_int c\<bar> < 1 / 2"
    unfolding abs_less_iff by simp
qed

lemma amount_column_close:
  assumes "\<bar>q\<bar> \<le> 4 * 10 ^ 8" and "\<bar>q - of_int c / 100\<bar> < 1 / 10 ^ 6"
  shows "amount_column (NumberToString (Finite q)) =
           (if \<bar>c\<bar> < 10 ^ 10 then Inr (Str (decimal_text c)) else Inl ''Out of range value'')"
  by (simp add: amount_column_def kept_hundredths[OF assms] Let_def)

lemma amount_column_zero: "amount_column (NumberToString (Finite 0)) = Inr (Str ''0.00'')"
  by code_simp

lemma column_range:
  fixes c :: int
  assumes "\<bar>c\<bar> < 10 ^ 10"
  shows "\<bar>of_int c / 100 :: rat\<bar> \<le> 10 ^ 8"
proof -
  have "(of_int \<bar>c\<bar> :: rat) < of_int (10 ^ 10)"
    using assms by (simp only: of_int_less_iff)
  then have "\<bar>of_int c :: rat\<bar> < 10 ^ 10" by simp
  then show ?thesis by simp
qed

lemma parseFloat_column:
  assumes "\<bar>c\<bar> < 10 ^ 10"
  shows "parseFloat (Some (decimal_text c)) = to_number (of_int c / 100)"
    and "to_number (of_int c / 100) = Finite (round_double (of_int c / 100))"
    and "\<bar>round_double (of_int c / 100) - of_int c / 100\<bar> \<le> (10 ^ 8 + 1) / 2 ^ 53"
proof -
  show "parseFloat (Some (decimal_text c)) = to_number (of_int c / 100)"
    by (rule parseFloat_literal) (rule literal_value_decimal_text)
  have b: "\<bar>of_int c / 100 :: rat\<bar> \<le> 10 ^ 8" using assms by (rule column_range)
  then show "to_number (of_int c / 100) = Finite (round_double (of_int c / 100))"
    by (intro to_number_finite) simp
  from b show "\<bar>round_double (of_int c / 100) - of_int c / 100\<bar> \<le> (10 ^ 8 + 1) / 2 ^ 53"
    by (rule round_double_close)
qed

lemma kept_column_value:
  assumes "\<bar>c\<bar> < 10 ^ 10"
  shows "amount_column (NumberToString (parseFloat (Some (decimal_text c)))) =
           Inr (Str (decimal_text c))"
proof -
  define a where "a = round_double (of_int c / 100)"
  have p: "parseFloat (Some (decimal_text c)) = Finite a"
    using parseFloat_column(1,2)[OF assms] by (simp add: a_def)
  have e: "\<bar>a - of_int c / 100\<bar> \<le> (10 ^ 8 + 1) / 2 ^ 53"
    unfolding a_def using assms by (rule parseFloat_column(3))
  have b: "\<bar>of_int c / 100 :: rat\<bar> \<le> 10 ^ 8" using assms by (rule column_range)
  have "\<bar>a\<bar> \<le> 4 * 10 ^ 8" using e b unfolding abs_le_iff by simp
  moreover have "\<bar>a - of_int c / 100\<bar> < 1 / 10 ^ 6" using e by simp
  ultimately show ?thesis
    unfolding p using assms by (simp add: amount_column_close)
qed

lemma kept_total:
  assumes "\<bar>r\<bar> < 10 ^ 10" "\<bar>s\<bar> < 10 ^ 10"
  shows "amount_column (NumberToString
           (js_add (js_add (parseFloat (Some (decimal_text r))) (parseFloat (Some (decimal_text s))))
                   (Finite 0))) =
         (if \<bar>r + s\<bar> < 10 ^ 10 then Inr (Str (decimal_text (r + s)))
          else Inl ''Out of range value'')"
proof -
  have br: "\<bar>of_int r / 100 :: rat\<bar> \<le> 10 ^ 8" using assms(1) by (rule column_range)
  have bs: "\<bar>of_int s / 100 :: rat\<bar> \<le> 10 ^ 8" using assms(2) by (rule column_range)
  from total_close[OF br bs] obtain t where
    t: "js_add (js_add (to_number (of_int r / 100)) (to_number (of_int s / 100))) (Finite 0) = Finite t"
    and e: "\<bar>t - (of_int r / 100 + of_int s / 100)\<bar> < 1 / 10 ^ 6"
    by blast
  have sum: "(of_int r / 100 + of_int s / 100 :: rat) = of_int (r + s) / 100"
    by (simp add: add_divide_distrib)
  have "\<bar>t\<bar> \<le> 4 * 10 ^ 8" using e br bs unfolding abs_le_iff abs_less_iff by simp
  moreover have "\<bar>t - of_int (r + s) / 100\<bar> < 1 / 10 ^ 6" using e unfolding sum .
  ultimately have "amount_column (NumberToString (Finite t)) =
      (if \<bar>r + s\<bar> < 10 ^ 10 then Inr (Str (decimal_text (r + s)))
       else Inl ''Out of range value'')"
    by (rule amount_column_close)
  then show ?thesis
    by (simp only: parseFloat_column(1)[OF assms(1)] parseFloat_column(1)[OF assms(2)] t)
qed

section \<open>Properties of the matcher\<close>

lemma name_step_sim:
  "name_step payer t b =
     (if similarity_to payer t > 60 \<and> similarity_to payer t > bm_similarity b
      then \<lparr> bm_tenant = Some t, bm_similarity = similarity_to payer t,
             bm_confidence = Math_round (similarity_to payer t) \<rparr>
      else b)"
  by (simp add: name_step_def similarity_to_def Let_def)

lemma name_fold:
  "(fold (name_step payer) ts no_match_yet = no_match_yet \<and>
      (\<forall>j < length ts. similarity_to payer (ts ! j) \<le> 60)) \<or>
   (\<exists>i. is_best_candidate payer ts i \<and>
      fold (name_step payer) ts no_match_yet =
        \<lparr> bm_tenant = Some (ts ! i), bm_similarity = similarity_to payer (ts ! i),
          bm_confidence = Math_round (similarity_to payer (ts ! i)) \<rparr>)"
proof (induction ts rule: rev_induct)
  case Nil
  then show ?case by simp
next
  case (snoc t ts)
  let ?s = "similarity_to payer"
  have nth_old: "(ts @ [t]) ! j = ts ! j" if "j < length ts" for j
    using that by (simp add: nth_append)
  have nth_new: "(ts @ [t]) ! length ts = t" by simp
  from snoc consider
    (none) "fold (name_step payer) ts no_match_yet = no_match_yet"
           "\<forall>j < length ts. ?s (ts ! j) \<le> 60"
  | (best) i where "is_best_candidate payer ts i"
           "fold (name_step payer) ts no_match_yet =
              \<lparr> bm_tenant = Some (ts ! i), bm_similarity = ?s (ts ! i),
                bm_confidence = Math_round (?s (ts ! i)) \<rparr>"
    by blast
  then show ?case
  proof cases
    case none
    show ?thesis
    proof (cases "60 < ?s t")
      case True
      have "is_best_candidate payer (ts @ [t]) (length ts)"
        unfolding is_best_candidate_def using none(2) True
        by (auto simp: nth_append less_Suc_eq)
      moreover have "fold (name_step payer) (ts @ [t]) no_match_yet =
          \<lparr> bm_tenant = Some t, bm_similarity = ?s t, bm_confidence = Math_round (?s t) \<rparr>"
        using True none(1) by (simp add: name_step_sim no_match_yet_def)
      ultimately show ?thesis using nth_new by metis
    next
      case False
      then have "fold (name_step payer) (ts @ [t]) no_match_yet = no_match_yet"
        using none(1) by (simp add: name_step_sim)
      moreover have "\<forall>j < length (ts @ [t]). ?s ((ts @ [t]) ! j) \<le> 60"
        using none(2) False by (auto simp: nth_append less_Suc_eq)
      ultimately show ?thesis by blast
    qed
  next
    case best
    from best(1) have i: "i < length ts" "60 < ?s (ts ! i)"
      "\<forall>j < length ts. ?s (ts ! j) \<le> ?s (ts ! i)" "\<forall>j < i. ?s (ts ! j) < ?s (ts ! i)"
      by (auto simp: is_best_candidate_def)
    show ?thesis
    proof (cases "?s (ts ! i) < ?s t")
      case True
      have "is_best_candidate payer (ts @ [t]) (length ts)"
        unfolding is_best_candidate_def using i True
        by (auto simp: nth_append less_Suc_eq intro: le_less_trans)
      moreover have "fold (name_step payer) (ts @ [t]) no_match_yet =
          \<lparr> bm_tenant = Some t, bm_similarity = ?s t, bm_confidence = Math_round (?s t) \<rparr>"
        using True i(2) best(2) by (simp add: name_step_sim)
      ultimately show ?thesis using nth_new by metis
    next
      case False
      have "is_best_candidate payer (ts @ [t]) i"
        unfolding is_best_candidate_def using i False
        by (auto simp: nth_append less_Suc_eq)
      moreover have "fold (name_step payer) (ts @ [t]) no_match_yet =
          \<lparr> bm_tenant = Some ((ts @ [t]) ! i), bm_similarity = ?s ((ts @ [t]) ! i),
            bm_confidence = Math_round (?s ((ts @ [t]) ! i)) \<rparr>"
        using False best(2) i(1) by (simp add: name_step_sim nth_append)
      ultimately show ?thesis by blast
    qed
  qed
qed

lemma best_candidate_unique:
  assumes "is_best_candidate payer ts i" "is_best_candidate payer ts k"
  shows "i = k"
proof (rule ccontr)
  assume "i \<noteq> k"
  then consider "i < k" | "k < i" by linarith
  then show False
  proof cases
    case 1
    then have "similarity_to payer (ts ! i) < similarity_to payer (ts ! k)"
      using assms(2) by (simp add: is_best_candidate_def)
    moreover have "similarity_to payer (ts ! k) \<le> similarity_to payer (ts ! i)"
      using assms by (simp add: is_best_candidate_def)
    ultimately show False by simp
  next
    case 2
    then have "similarity_to payer (ts ! k) < similarity_to payer (ts ! i)"
      using assms(1) by (simp add: is_best_candidate_def)
    moreover have "similarity_to payer (ts ! i) \<le> similarity_to payer (ts ! k)"
      using assms by (simp add: is_best_candidate_def)
    ultimately show False by simp
  qed
qed

lemma Math_round_le_70: "x \<le> 70 \<Longrightarrow> Math_round x \<le> 70"
  by (simp add: Math_round_def floor_le_iff)

lemma name_matching_cases:
  "(name_matching payment ts =
      \<lparr> tenantId = None, invoiceId = None, matchStatus = unmatched, matchConfidence = 0,
        matchReason = Some ''No clear match found'' \<rparr> \<and>
    (\<forall>j < length ts. similarity_to (payerName payment) (ts ! j) \<le> 60)) \<or>
   (\<exists>i. is_best_candidate (payerName payment) ts i \<and>
      name_matching payment ts =
        (if 70 < Math_round (similarity_to (payerName payment) (ts ! i))
         then \<lparr> tenantId = Some (tenant_id (ts ! i)), invoiceId = None, matchStatus = matched,
                matchConfidence = Math_round (similarity_to (payerName payment) (ts ! i)),
                matchReason = Some (''Name match (''
                   @ String_of_int (Math_round (similarity_to (payerName payment) (ts ! i)))
                   @ ''% similarity)'') \<rparr>
         else \<lparr> tenantId = None, invoiceId = None, matchStatus = unmatched,
                matchConfidence = Math_round (similarity_to (payerName payment) (ts ! i)),
                matchReason = Some ''No clear match found'' \<rparr>))"
  using name_fold[of "payerName payment" ts]
  by (auto simp: name_matching_def Let_def no_match_yet_def)

lemma sample_similarities:
  "similarity_to ''Jon Doe'' (sample_tenants ! 0) < 60"
  "similarity_to ''Jon Doe'' (sample_tenants ! 1) = 175 / 2"
  "similarity_to ''Jon Doe'' (sample_tenants ! 2) = 175 / 2"
  by code_simp+

lemma sample_phone_result:
  "autoMatchPaymentToTenant Map.empty (Some tenants_db) phone_payment =
     \<lparr> tenantId = Some 2, invoiceId = None, matchStatus = matched, matchConfidence = 100,
       matchReason = Some ''Phone number match'' \<rparr>"
  by code_simp

lemma sample_name_result:
  "autoMatchPaymentToTenant Map.empty (Some tenants_db) name_payment =
     \<lparr> tenantId = Some 2, invoiceId = None, matchStatus = matched, matchConfidence = 88,
       matchReason = Some ''Name match (88% similarity)'' \<rparr>"
  by code_simp

lemma sample_stranger_result:
  "autoMatchPaymentToTenant Map.empty (Some tenants_db) stranger_payment =
     \<lparr> tenantId = None, invoiceId = None, matchStatus = unmatched, matchConfidence = 0,
       matchReason = Some ''No clear match found'' \<rparr>"
  by code_simp


lemma normalizePhoneNumber_props:
  "(\<forall>c \<in> set (normalizePhoneNumber s). is_digit c) \<and>
   (\<exists>pre. filter is_digit s = pre @ normalizePhoneNumber s) \<and>
   length (normalizePhoneNumber s) = min 9 (length (filter is_digit s))"
proof -
  define ds where "ds = filter is_digit s"
  have n: "normalizePhoneNumber s = drop (length ds - 9) ds"
    by (simp add: normalizePhoneNumber_def ds_def Let_def)
  have "\<forall>c \<in> set (drop (length ds - 9) ds). is_digit c"
    using set_drop_subset[of "length ds - 9" ds] by (auto simp: ds_def)
  moreover have "ds = take (length ds - 9) ds @ drop (length ds - 9) ds" by simp
  moreover have "length (drop (length ds - 9) ds) = min 9 (length ds)" by auto
  ultimately show ?thesis unfolding n ds_def[symmetric] by blast
qed

lemma phone_matching_found:
  assumes "phoneNumber payment = Some p" "p \<noteq> []"
    and "t \<in> set ts" "phone t \<noteq> []"
    and "normalizePhoneNumber (phone t) = normalizePhoneNumber p"
  shows "\<exists>i < length ts. phone_match (normalizePhoneNumber p) (ts ! i) \<and>
           (\<forall>j < i. \<not> phone_match (normalizePhoneNumber p) (ts ! j)) \<and>
           phone_matching payment ts = Some (ts ! i)"
proof -
  have "phone_match (normalizePhoneNumber p) t"
    using assms by (simp add: phone_match_def)
  then have "find (phone_match (normalizePhoneNumber p)) ts \<noteq> None"
    using assms(3) by (auto simp: find_None_iff)
  then obtain u where u: "find (phone_match (normalizePhoneNumber p)) ts = Some u" by auto
  then obtain i where "i < length ts" "phone_match (normalizePhoneNumber p) (ts ! i)"
    "u = ts ! i" "\<forall>j < i. \<not> phone_match (normalizePhoneNumber p) (ts ! j)"
    unfolding find_Some_iff by blast
  moreover have "phone_matching payment ts = Some u"
    using assms(1,2) u by (simp add: phone_matching_def phone_of_def)
  ultimately show ?thesis by blast
qed

text \<open>
  C6. Phone normalization keeps the digits only and of those the last nine, so
  \<^verbatim>\<open>"0712-345-678"\<close> and \<^verbatim>\<open>"+254 712 345 678"\<close> both give \<^verbatim>\<open>"712345678"\<close>. When the
  payment has a phone number (the field is there and not empty) and some tenant with a
  phone has the same normalized phone, \<open>autoMatchPaymentToTenant\<close> returns matched with
  confidence 100 and reason \<^verbatim>\<open>"Phone number match"\<close> for the first such tenant in the
  order of the pool, whatever the names are.
\<close>

theorem phone_match_first:
  "normalizePhoneNumber ''0712-345-678'' = ''712345678'' \<and>
   normalizePhoneNumber ''+254 712 345 678'' = ''712345678'' \<and>
   (\<forall>c \<in> set (normalizePhoneNumber s). is_digit c) \<and>
   (\<exists>pre. filter is_digit s = pre @ normalizePhoneNumber s) \<and>
   length (normalizePhoneNumber s) = min 9 (length (filter is_digit s)) \<and>
   (flt 0 = None \<and> phoneNumber payment = Some p \<and> p \<noteq> [] \<and>
    t \<in> set (tenants db) \<and> phone t \<noteq> [] \<and>
    normalizePhoneNumber (phone t) = normalizePhoneNumber p \<longrightarrow>
      (\<exists>i < length (tenants db).
          phone_match (normalizePhoneNumber p) (tenants db ! i) \<and>
          (\<forall>j < i. \<not> phone_match (normalizePhoneNumber p) (tenants db ! j)) \<and>
          autoMatchPaymentToTenant flt (Some db) payment =
            \<lparr> tenantId = Some (tenant_id (tenants db ! i)), invoiceId = None,
              matchStatus = matched, matchConfidence = 100,
              matchReason = Some ''Phone number match'' \<rparr>))"
proof -
  have ex1: "normalizePhoneNumber ''0712-345-678'' = ''712345678''"
    by (simp add: normalizePhoneNumber_def is_digit_def)
  have ex2: "normalizePhoneNumber ''+254 712 345 678'' = ''712345678''"
    by (simp add: normalizePhoneNumber_def is_digit_def)
  have m: "\<exists>i < length (tenants db).
          phone_match (normalizePhoneNumber p) (tenants db ! i) \<and>
          (\<forall>j < i. \<not> phone_match (normalizePhoneNumber p) (tenants db ! j)) \<and>
          autoMatchPaymentToTenant flt (Some db) payment =
            \<lparr> tenantId = Some (tenant_id (tenants db ! i)), invoiceId = None,
              matchStatus = matched, matchConfidence = 100,
              matchReason = Some ''Phone number match'' \<rparr>"
    if h: "flt 0 = None" "phoneNumber payment = Some p" "p \<noteq> []"
      "t \<in> set (tenants db)" "phone t \<noteq> []"
      "normalizePhoneNumber (phone t) = normalizePhoneNumber p"
  proof -
    from phone_matching_found[OF h(2,3,4,5,6)]
    obtain i where i: "i < length (tenants db)"
      "phone_match (normalizePhoneNumber p) (tenants db ! i)"
      "\<forall>j < i. \<not> phone_match (normalizePhoneNumber p) (tenants db ! j)"
      "phone_matching payment (tenants db) = Some (tenants db ! i)"
      by blast
    have "autoMatchPaymentToTenant flt (Some db) payment =
            \<lparr> tenantId = Some (tenant_id (tenants db ! i)), invoiceId = None,
              matchStatus = matched, matchConfidence = 100,
              matchReason = Some ''Phone number match'' \<rparr>"
      using h(1) i(4) by (simp add: autoMatchPaymentToTenant_def)
    with i show ?thesis by blast
  qed
  from ex1 ex2 normalizePhoneNumber_props[of s] m show ?thesis by blast
qed

theorem phone_match_first_witness:
  "Map.empty (0::nat) = (None :: string option) \<and>
   phoneNumber phone_payment = Some ''+254 712 345 678'' \<and>
   sample_tenants ! 2 \<in> set (tenants tenants_db) \<and>
   phone (sample_tenants ! 2) = ''+254712345678'' \<and>
   normalizePhoneNumber (phone (sample_tenants ! 2)) = normalizePhoneNumber ''+254 712 345 678'' \<and>
   autoMatchPaymentToTenant Map.empty (Some tenants_db) phone_payment =
     \<lparr> tenantId = Some 2, invoiceId = None, matchStatus = matched, matchConfidence = 100,
       matchReason = Some ''Phone number match'' \<rparr> \<and>
   (\<exists>i < length (tenants tenants_db).
      phone_match (normalizePhoneNumber ''+254 712 345 678'') (tenants tenants_db ! i) \<and>
      tenant_id (tenants tenants_db ! i) = 2)"
proof -
  have h: "Map.empty (0::nat) = (None :: string option)"
    "phoneNumber phone_payment = Some ''+254 712 345 678''"
    "''+254 712 345 678'' \<noteq> []"
    "sample_tenants ! 2 \<in> set (tenants tenants_db)"
    "phone (sample_tenants ! 2) = ''+254712345678''"
    "phone (sample_tenants ! 2) \<noteq> []"
    "normalizePhoneNumber (phone (sample_tenants ! 2)) = normalizePhoneNumber ''+254 712 345 678''"
    by (simp_all add: phone_payment_def tenants_db_def sample_tenants_def
          normalizePhoneNumber_def is_digit_def)
  from phone_match_first[of _ Map.empty phone_payment "''+254 712 345 678''"
         "sample_tenants ! 2" tenants_db] h
  obtain i where i: "i < length (tenants tenants_db)"
    "phone_match (normalizePhoneNumber ''+254 712 345 678'') (tenants tenants_db ! i)"
    "autoMatchPaymentToTenant Map.empty (Some tenants_db) phone_payment =
       \<lparr> tenantId = Some (tenant_id (tenants tenants_db ! i)), invoiceId = None,
         matchStatus = matched, matchConfidence = 100,
         matchReason = Some ''Phone number match'' \<rparr>"
    by blast
  from i(3) have "tenant_id (tenants tenants_db ! i) = 2"
    unfolding sample_phone_result by simp
  with i h sample_phone_result show ?thesis by blast
qed

lemma auto_match_name_path:
  assumes "flt 0 = None" "phone_matching payment (tenants db) = None"
  shows "autoMatchPaymentToTenant flt (Some db) payment = name_matching payment (tenants db)"
  using assms by (simp add: autoMatchPaymentToTenant_def)

text \<open>The result of the search by name, case by case.\<close>

lemma name_matching_exact:
  "((\<forall>t \<in> set ts. similarity_to (payerName payment) t \<le> 60) \<longrightarrow>
      name_matching payment ts =
        \<lparr> tenantId = None, invoiceId = None, matchStatus = unmatched, matchConfidence = 0,
          matchReason = Some ''No clear match found'' \<rparr>) \<and>
   (\<forall>i. is_best_candidate (payerName payment) ts i \<longrightarrow>
      name_matching payment ts =
        (if 70 < Math_round (similarity_to (payerName payment) (ts ! i))
         then \<lparr> tenantId = Some (tenant_id (ts ! i)), invoiceId = None, matchStatus = matched,
                matchConfidence = Math_round (similarity_to (payerName payment) (ts ! i)),
                matchReason = Some (''Name match (''
                   @ String_of_int (Math_round (similarity_to (payerName payment) (ts ! i)))
                   @ ''% similarity)'') \<rparr>
         else \<lparr> tenantId = None, invoiceId = None, matchStatus = unmatched,
                matchConfidence = Math_round (similarity_to (payerName payment) (ts ! i)),
                matchReason = Some ''No clear match found'' \<rparr>)) \<and>
   ((\<exists>t \<in> set ts. 60 < similarity_to (payerName payment) t) \<longrightarrow>
      (\<exists>i. is_best_candidate (payerName payment) ts i))"
proof -
  let ?payer = "payerName payment"
  from name_matching_cases[of payment ts] consider
    (none) "name_matching payment ts =
        \<lparr> tenantId = None, invoiceId = None, matchStatus = unmatched, matchConfidence = 0,
          matchReason = Some ''No clear match found'' \<rparr>"
       "\<forall>j < length ts. similarity_to ?payer (ts ! j) \<le> 60"
  | (best) k where "is_best_candidate ?payer ts k"
       "name_matching payment ts =
        (if 70 < Math_round (similarity_to ?payer (ts ! k))
         then \<lparr> tenantId = Some (tenant_id (ts ! k)), invoiceId = None, matchStatus = matched,
                matchConfidence = Math_round (similarity_to ?payer (ts ! k)),
                matchReason = Some (''Name match (''
                   @ String_of_int (Math_round (similarity_to ?payer (ts ! k)))
                   @ ''% similarity)'') \<rparr>
         else \<lparr> tenantId = None, invoiceId = None, matchStatus = unmatched,
                matchConfidence = Math_round (similarity_to ?payer (ts ! k)),
                matchReason = Some ''No clear match found'' \<rparr>)"
    by blast
  then show ?thesis
  proof cases
    case none
    have "\<not> is_best_candidate ?payer ts i" for i
      using none(2) by (auto simp: is_best_candidate_def)
    moreover have "\<not> (\<exists>t \<in> set ts. 60 < similarity_to ?payer t)"
    proof
      assume "\<exists>t \<in> set ts. 60 < similarity_to ?payer t"
      then obtain j where j: "j < length ts" "60 < similarity_to ?payer (ts ! j)"
        by (auto simp: in_set_conv_nth)
      from none(2) j(1) have "similarity_to ?payer (ts ! j) \<le> 60" by blast
      with j(2) show False by simp
    qed
    ultimately show ?thesis using none(1) by blast
  next
    case best
    from best(1) have "ts ! k \<in> set ts" "60 < similarity_to ?payer (ts ! k)"
      by (simp_all add: is_best_candidate_def)
    then have a: "\<not> (\<forall>t \<in> set ts. similarity_to ?payer t \<le> 60)"
      by (auto simp: not_le)
    have b: "i = k" if "is_best_candidate ?payer ts i" for i
      using that best(1) by (rule best_candidate_unique)
    show ?thesis using a b best by blast
  qed
qed

text \<open>
  C7. Without a phone match the result is decided by the names, and the floor is 60: when
  no tenant has a similarity strictly above 60 the result is unmatched with confidence 0;
  otherwise there is a best candidate, a tenant whose similarity is strictly above 60,
  that no tenant exceeds and no earlier tenant equals (a tie keeps the first), and the
  result is decided by its rounded similarity, which is the confidence either way: above
  70 the result is matched with this tenant, at 70 or below it is unmatched with no
  tenant. So a result is matched only for the best candidate and only when its rounded
  similarity exceeds 70; and when the similarity of the payer name to every tenant is at
  most 70 the result is unmatched, with no tenant and reason
  \<^verbatim>\<open>"No clear match found"\<close>.
\<close>

theorem name_match_thresholds:
  assumes "flt 0 = None" and "phone_matching payment (tenants db) = None"
  shows
    "(matchStatus (autoMatchPaymentToTenant flt (Some db) payment) = matched \<longrightarrow>
        (\<exists>i. is_best_candidate (payerName payment) (tenants db) i \<and>
           70 < Math_round (similarity_to (payerName payment) (tenants db ! i)) \<and>
           tenantId (autoMatchPaymentToTenant flt (Some db) payment) = Some (tenant_id (tenants db ! i)) \<and>
           matchConfidence (autoMatchPaymentToTenant flt (Some db) payment) =
             Math_round (similarity_to (payerName payment) (tenants db ! i)))) \<and>
     (\<forall>i. is_best_candidate (payerName payment) (tenants db) i \<and>
           70 < Math_round (similarity_to (payerName payment) (tenants db ! i)) \<longrightarrow>
           matchStatus (autoMatchPaymentToTenant flt (Some db) payment) = matched \<and>
           tenantId (autoMatchPaymentToTenant flt (Some db) payment) = Some (tenant_id (tenants db ! i))) \<and>
     ((\<forall>t \<in> set (tenants db). similarity_to (payerName payment) t \<le> 70) \<longrightarrow>
        matchStatus (autoMatchPaymentToTenant flt (Some db) payment) = unmatched \<and>
        tenantId (autoMatchPaymentToTenant flt (Some db) payment) = None \<and>
        matchReason (autoMatchPaymentToTenant flt (Some db) payment) = Some ''No clear match found'') \<and>
     ((\<forall>t \<in> set (tenants db). similarity_to (payerName payment) t \<le> 60) \<longrightarrow>
        autoMatchPaymentToTenant flt (Some db) payment =
          \<lparr> tenantId = None, invoiceId = None, matchStatus = unmatched, matchConfidence = 0,
            matchReason = Some ''No clear match found'' \<rparr>) \<and>
     (\<forall>i. is_best_candidate (payerName payment) (tenants db) i \<longrightarrow>
        autoMatchPaymentToTenant flt (Some db) payment =
          (if 70 < Math_round (similarity_to (payerName payment) (tenants db ! i))
           then \<lparr> tenantId = Some (tenant_id (tenants db ! i)), invoiceId = None,
                  matchStatus = matched,
                  matchConfidence = Math_round (similarity_to (payerName payment) (tenants db ! i)),
                  matchReason = Some (''Name match (''
                     @ String_of_int (Math_round (similarity_to (payerName payment) (tenants db ! i)))
                     @ ''% similarity)'') \<rparr>
           else \<lparr> tenantId = None, invoiceId = None, matchStatus = unmatched,
                  matchConfidence = Math_round (similarity_to (payerName payment) (tenants db ! i)),
                  matchReason = Some ''No clear match found'' \<rparr>)) \<and>
     ((\<exists>t \<in> set (tenants db). 60 < similarity_to (payerName payment) t) \<longrightarrow>
        (\<exists>i. is_best_candidate (payerName payment) (tenants db) i))"
proof -
  let ?ts = "tenants db" and ?payer = "payerName payment"
  let ?r = "autoMatchPaymentToTenant flt (Some db) payment"
  have r: "?r = name_matching payment ?ts"
    using assms by (rule auto_match_name_path)
  note exact = name_matching_exact[of ?ts payment, folded r]
  from name_matching_cases[of payment ?ts] consider
    (none) "?r = \<lparr> tenantId = None, invoiceId = None, matchStatus = unmatched, matchConfidence = 0,
        matchReason = Some ''No clear match found'' \<rparr>"
       "\<forall>j < length ?ts. similarity_to ?payer (?ts ! j) \<le> 60"
  | (hi) i where "is_best_candidate ?payer ?ts i"
       "70 < Math_round (similarity_to ?payer (?ts ! i))"
       "?r = \<lparr> tenantId = Some (tenant_id (?ts ! i)), invoiceId = None, matchStatus = matched,
                matchConfidence = Math_round (similarity_to ?payer (?ts ! i)),
                matchReason = Some (''Name match (''
                   @ String_of_int (Math_round (similarity_to ?payer (?ts ! i)))
                   @ ''% similarity)'') \<rparr>"
  | (lo) i where "is_best_candidate ?payer ?ts i"
       "\<not> 70 < Math_round (similarity_to ?payer (?ts ! i))"
       "?r = \<lparr> tenantId = None, invoiceId = None, matchStatus = unmatched,
                matchConfidence = Math_round (similarity_to ?payer (?ts ! i)),
                matchReason = Some ''No clear match found'' \<rparr>"
    unfolding r by (auto split: if_splits)
  then have old:
    "(matchStatus ?r = matched \<longrightarrow>
        (\<exists>i. is_best_candidate ?payer ?ts i \<and>
           70 < Math_round (similarity_to ?payer (?ts ! i)) \<and>
           tenantId ?r = Some (tenant_id (?ts ! i)) \<and>
           matchConfidence ?r = Math_round (similarity_to ?payer (?ts ! i)))) \<and>
     (\<forall>i. is_best_candidate ?payer ?ts i \<and>
           70 < Math_round (similarity_to ?payer (?ts ! i)) \<longrightarrow>
           matchStatus ?r = matched \<and> tenantId ?r = Some (tenant_id (?ts ! i))) \<and>
     ((\<forall>t \<in> set ?ts. similarity_to ?payer t \<le> 70) \<longrightarrow>
        matchStatus ?r = unmatched \<and> tenantId ?r = None \<and>
        matchReason ?r = Some ''No clear match found'')"
  proof cases
    case none
    have "\<not> is_best_candidate ?payer ?ts i" for i
      using none(2) by (auto simp: is_best_candidate_def)
    then show ?thesis using none(1) by simp
  next
    case hi
    have a: "matchStatus ?r = matched" "tenantId ?r = Some (tenant_id (?ts ! i))"
      "matchConfidence ?r = Math_round (similarity_to ?payer (?ts ! i))"
      by (simp_all add: hi(3))
    have b: "k = i" if "is_best_candidate ?payer ?ts k" for k
      using that hi(1) by (rule best_candidate_unique)
    have c: "\<not> (\<forall>t \<in> set ?ts. similarity_to ?payer t \<le> 70)"
    proof
      assume "\<forall>t \<in> set ?ts. similarity_to ?payer t \<le> 70"
      moreover have "?ts ! i \<in> set ?ts" using hi(1) by (simp add: is_best_candidate_def)
      ultimately have "similarity_to ?payer (?ts ! i) \<le> 70" by blast
      then have "Math_round (similarity_to ?payer (?ts ! i)) \<le> 70" by (rule Math_round_le_70)
      with hi(2) show False by simp
    qed
    show ?thesis using a b c hi(1,2) by blast
  next
    case lo
    have a: "matchStatus ?r = unmatched" "tenantId ?r = None"
      "matchReason ?r = Some ''No clear match found''"
      by (simp_all add: lo(3))
    have b: "k = i" if "is_best_candidate ?payer ?ts k" for k
      using that lo(1) by (rule best_candidate_unique)
    show ?thesis using a b lo(2) by auto
  qed
  from old exact show ?thesis by (intro conjI) blast+
qed

lemma sample_stranger_below_floor:
  "\<forall>t \<in> set (tenants tenants_db). similarity_to (payerName stranger_payment) t \<le> 60"
proof -
  have "similarity_to (payerName stranger_payment) (sample_tenants ! 0) \<le> 60"
    "similarity_to (payerName stranger_payment) (sample_tenants ! 1) \<le> 60"
    "similarity_to (payerName stranger_payment) (sample_tenants ! 2) \<le> 60"
    by code_simp+
  then show ?thesis
    by (simp add: tenants_db_def sample_tenants_def)
qed

lemma sample_no_phone:
  "phone_matching name_payment (tenants tenants_db) = None"
  "phone_matching stranger_payment (tenants tenants_db) = None"
  by (simp_all add: phone_matching_def phone_of_def name_payment_def stranger_payment_def)

theorem name_match_thresholds_witness:
  "Map.empty (0::nat) = (None :: string option) \<and>
   phone_matching name_payment (tenants tenants_db) = None \<and>
   autoMatchPaymentToTenant Map.empty (Some tenants_db) name_payment =
     \<lparr> tenantId = Some 2, invoiceId = None, matchStatus = matched, matchConfidence = 88,
       matchReason = Some ''Name match (88% similarity)'' \<rparr> \<and>
   (\<exists>i. is_best_candidate (payerName name_payment) (tenants tenants_db) i \<and>
      70 < Math_round (similarity_to (payerName name_payment) (tenants tenants_db ! i)) \<and>
      Some (2::int) = Some (tenant_id (tenants tenants_db ! i)) \<and>
      (88::int) = Math_round (similarity_to (payerName name_payment) (tenants tenants_db ! i))) \<and>
   phone_matching stranger_payment (tenants tenants_db) = None \<and>
   similarity_to (payerName stranger_payment) (sample_tenants ! 0) \<le> 60 \<and>
   similarity_to (payerName stranger_payment) (sample_tenants ! 1) \<le> 60 \<and>
   similarity_to (payerName stranger_payment) (sample_tenants ! 2) \<le> 60 \<and>
   autoMatchPaymentToTenant Map.empty (Some tenants_db) stranger_payment =
     \<lparr> tenantId = None, invoiceId = None, matchStatus = unmatched, matchConfidence = 0,
       matchReason = Some ''No clear match found'' \<rparr>"
proof -
  have h1: "Map.empty (0::nat) = (None :: string option)" by simp
  have m: "matchStatus (autoMatchPaymentToTenant Map.empty (Some tenants_db) name_payment) = matched"
    by (simp add: sample_name_result)
  from name_match_thresholds[OF h1 sample_no_phone(1)] m
  have "\<exists>i. is_best_candidate (payerName name_payment) (tenants tenants_db) i \<and>
      70 < Math_round (similarity_to (payerName name_payment) (tenants tenants_db ! i)) \<and>
      tenantId (autoMatchPaymentToTenant Map.empty (Some tenants_db) name_payment) =
        Some (tenant_id (tenants tenants_db ! i)) \<and>
      matchConfidence (autoMatchPaymentToTenant Map.empty (Some tenants_db) name_payment) =
        Math_round (similarity_to (payerName name_payment) (tenants tenants_db ! i))"
    by blast
  then have a: "\<exists>i. is_best_candidate (payerName name_payment) (tenants tenants_db) i \<and>
      70 < Math_round (similarity_to (payerName name_payment) (tenants tenants_db ! i)) \<and>
      Some (2::int) = Some (tenant_id (tenants tenants_db ! i)) \<and>
      (88::int) = Math_round (similarity_to (payerName name_payment) (tenants tenants_db ! i))"
    unfolding sample_name_result by simp
  from name_match_thresholds[OF h1 sample_no_phone(2)] sample_stranger_below_floor
  have b: "autoMatchPaymentToTenant Map.empty (Some tenants_db) stranger_payment =
     \<lparr> tenantId = None, invoiceId = None, matchStatus = unmatched, matchConfidence = 0,
       matchReason = Some ''No clear match found'' \<rparr>"
    by blast
  have c: "similarity_to (payerName stranger_payment) (sample_tenants ! 0) \<le> 60"
    "similarity_to (payerName stranger_payment) (sample_tenants ! 1) \<le> 60"
    "similarity_to (payerName stranger_payment) (sample_tenants ! 2) \<le> 60"
    using sample_stranger_below_floor by (simp_all add: tenants_db_def sample_tenants_def)
  from h1 sample_no_phone sample_name_result a b c show ?thesis
    by blast
qed

lemma name_matching_range:
  "matchStatus (name_matching payment ts) \<noteq> manual \<and>
   0 \<le> matchConfidence (name_matching payment ts) \<and>
   matchConfidence (name_matching payment ts) \<le> 100"
proof -
  from name_matching_cases[of payment ts] consider
    (none) "matchStatus (name_matching payment ts) = unmatched"
           "matchConfidence (name_matching payment ts) = 0"
  | (some) i where "is_best_candidate (payerName payment) ts i"
      "matchStatus (name_matching payment ts) \<noteq> manual"
      "matchConfidence (name_matching payment ts) = Math_round (similarity_to (payerName payment) (ts ! i))"
    by (auto split: if_splits)
  then show ?thesis
  proof cases
    case none
    then show ?thesis by simp
  next
    case some
    from some(1) have i: "60 < similarity_to (payerName payment) (ts ! i)"
      by (simp add: is_best_candidate_def)
    have "60 \<le> Math_round (similarity_to (payerName payment) (ts ! i))"
      using i by (rule Math_round_floor)
    moreover have "Math_round (similarity_to (payerName payment) (ts ! i)) \<le> 100"
      unfolding similarity_to_def by (rule Math_round_similarity)
    ultimately show ?thesis using some by auto
  qed
qed

lemma name_matching_confidence:
  "((\<forall>t \<in> set ts. similarity_to (payerName payment) t \<le> 60) \<longrightarrow>
      matchConfidence (name_matching payment ts) = 0) \<and>
   (\<forall>i. is_best_candidate (payerName payment) ts i \<longrightarrow>
      matchConfidence (name_matching payment ts) =
        Math_round (similarity_to (payerName payment) (ts ! i))) \<and>
   ((\<exists>t \<in> set ts. 60 < similarity_to (payerName payment) t) \<longrightarrow>
      (\<exists>i. is_best_candidate (payerName payment) ts i))"
proof (intro conjI allI impI)
  assume "\<forall>t \<in> set ts. similarity_to (payerName payment) t \<le> 60"
  with name_matching_exact[of ts payment]
  show "matchConfidence (name_matching payment ts) = 0" by simp
next
  fix i
  assume "is_best_candidate (payerName payment) ts i"
  with name_matching_exact[of ts payment]
  have "name_matching payment ts =
        (if 70 < Math_round (similarity_to (payerName payment) (ts ! i))
         then \<lparr> tenantId = Some (tenant_id (ts ! i)), invoiceId = None, matchStatus = matched,
                matchConfidence = Math_round (similarity_to (payerName payment) (ts ! i)),
                matchReason = Some (''Name match (''
                   @ String_of_int (Math_round (similarity_to (payerName payment) (ts ! i)))
                   @ ''% similarity)'') \<rparr>
         else \<lparr> tenantId = None, invoiceId = None, matchStatus = unmatched,
                matchConfidence = Math_round (similarity_to (payerName payment) (ts ! i)),
                matchReason = Some ''No clear match found'' \<rparr>)"
    by blast
  then show "matchConfidence (name_matching payment ts) =
        Math_round (similarity_to (payerName payment) (ts ! i))"
    by simp
next
  assume "\<exists>t \<in> set ts. 60 < similarity_to (payerName payment) t"
  with name_matching_exact[of ts payment]
  show "\<exists>i. is_best_candidate (payerName payment) ts i" by blast
qed

text \<open>
  C10, as the code has it. For every payment, pool, storage fault and missing database,
  the status returned by \<open>autoMatchPaymentToTenant\<close> is never manual and the confidence is
  an integer from 0 to 100. It is 0, with status unmatched, when there is no database or
  the select of the tenants throws. Otherwise it is 100, with status matched, on a phone
  match; and without a phone match it is the rounded similarity of the best candidate
  (the first tenant of greatest similarity above the floor of 60) when a tenant is above
  the floor, and 0 when none is.
\<close>

theorem match_result_range:
  "matchStatus (autoMatchPaymentToTenant flt dbo payment) \<noteq> manual \<and>
   0 \<le> matchConfidence (autoMatchPaymentToTenant flt dbo payment) \<and>
   matchConfidence (autoMatchPaymentToTenant flt dbo payment) \<le> 100 \<and>
   (dbo = None \<or> flt 0 \<noteq> None \<longrightarrow>
      matchConfidence (autoMatchPaymentToTenant flt dbo payment) = 0 \<and>
      matchStatus (autoMatchPaymentToTenant flt dbo payment) = unmatched) \<and>
   (\<forall>db. dbo = Some db \<and> flt 0 = None \<longrightarrow>
      (phone_matching payment (tenants db) \<noteq> None \<longrightarrow>
         matchConfidence (autoMatchPaymentToTenant flt dbo payment) = 100 \<and>
         matchStatus (autoMatchPaymentToTenant flt dbo payment) = matched) \<and>
      (phone_matching payment (tenants db) = None \<longrightarrow>
         ((\<forall>t \<in> set (tenants db). similarity_to (payerName payment) t \<le> 60) \<longrightarrow>
            matchConfidence (autoMatchPaymentToTenant flt dbo payment) = 0) \<and>
         (\<forall>i. is_best_candidate (payerName payment) (tenants db) i \<longrightarrow>
            matchConfidence (autoMatchPaymentToTenant flt dbo payment) =
              Math_round (similarity_to (payerName payment) (tenants db ! i))) \<and>
         ((\<exists>t \<in> set (tenants db). 60 < similarity_to (payerName payment) t) \<longrightarrow>
            (\<exists>i. is_best_candidate (payerName payment) (tenants db) i))))"
proof (cases dbo)
  case None
  then show ?thesis by (simp add: autoMatchPaymentToTenant_def)
next
  case (Some db)
  show ?thesis
  proof (cases "flt 0")
    case F: (Some msg)
    then show ?thesis using Some by (simp add: autoMatchPaymentToTenant_def)
  next
    case None
    show ?thesis
    proof (cases "phone_matching payment (tenants db)")
      case (Some t)
      then show ?thesis using \<open>dbo = Some db\<close> None
        by (simp add: autoMatchPaymentToTenant_def)
    next
      case N: None
      then have r: "autoMatchPaymentToTenant flt dbo payment = name_matching payment (tenants db)"
        using \<open>dbo = Some db\<close> None by (simp add: autoMatchPaymentToTenant_def)
      show ?thesis
        unfolding r
        using name_matching_range[of payment "tenants db"]
          name_matching_confidence[of "tenants db" payment] N \<open>dbo = Some db\<close> None
        by simp
    qed
  qed
qed

theorem match_result_range_witness:
  "Map.empty (0::nat) = (None :: string option) \<and>
   phone_matching name_payment (tenants tenants_db) = None \<and>
   matchStatus (autoMatchPaymentToTenant Map.empty (Some tenants_db) name_payment) = matched \<and>
   matchConfidence (autoMatchPaymentToTenant Map.empty (Some tenants_db) name_payment) = 88 \<and>
   similarity_to (payerName name_payment) (sample_tenants ! 1) = 175 / 2 \<and>
   (\<exists>i. is_best_candidate (payerName name_payment) (tenants tenants_db) i \<and>
      88 = Math_round (similarity_to (payerName name_payment) (tenants tenants_db ! i))) \<and>
   phone_matching stranger_payment (tenants tenants_db) = None \<and>
   similarity_to (payerName stranger_payment) (sample_tenants ! 0) \<le> 60 \<and>
   similarity_to (payerName stranger_payment) (sample_tenants ! 1) \<le> 60 \<and>
   similarity_to (payerName stranger_payment) (sample_tenants ! 2) \<le> 60 \<and>
   matchConfidence (autoMatchPaymentToTenant Map.empty (Some tenants_db) stranger_payment) = 0 \<and>
   matchConfidence (autoMatchPaymentToTenant Map.empty (Some tenants_db) phone_payment) = 100"
proof -
  have h1: "Map.empty (0::nat) = (None :: string option)" by simp
  have c: "matchConfidence (autoMatchPaymentToTenant Map.empty (Some tenants_db) name_payment) = 88"
    "matchStatus (autoMatchPaymentToTenant Map.empty (Some tenants_db) name_payment) = matched"
    by (simp_all add: sample_name_result)
  have "payerName name_payment = ''Jon Doe''" by (simp add: name_payment_def)
  then have s1: "similarity_to (payerName name_payment) (sample_tenants ! 1) = 175 / 2"
    by (simp only: sample_similarities(2))
  then have above: "\<exists>t \<in> set (tenants tenants_db). 60 < similarity_to (payerName name_payment) t"
    by (intro bexI[of _ "sample_tenants ! 1"]) (simp_all add: tenants_db_def sample_tenants_def)
  note inst = match_result_range[of Map.empty "Some tenants_db"]
  from inst[of name_payment] sample_no_phone(1) above
  obtain i where i: "is_best_candidate (payerName name_payment) (tenants tenants_db) i"
    by auto
  with inst[of name_payment] sample_no_phone(1)
  have "matchConfidence (autoMatchPaymentToTenant Map.empty (Some tenants_db) name_payment) =
      Math_round (similarity_to (payerName name_payment) (tenants tenants_db ! i))"
    by simp
  with i c(1) have a: "\<exists>i. is_best_candidate (payerName name_payment) (tenants tenants_db) i \<and>
      88 = Math_round (similarity_to (payerName name_payment) (tenants tenants_db ! i))"
    by auto
  from inst[of stranger_payment] sample_no_phone(2) sample_stranger_below_floor
  have b: "matchConfidence (autoMatchPaymentToTenant Map.empty (Some tenants_db) stranger_payment) = 0"
    by simp
  have f: "similarity_to (payerName stranger_payment) (sample_tenants ! 0) \<le> 60"
    "similarity_to (payerName stranger_payment) (sample_tenants ! 1) \<le> 60"
    "similarity_to (payerName stranger_payment) (sample_tenants ! 2) \<le> 60"
    using sample_stranger_below_floor by (simp_all add: tenants_db_def sample_tenants_def)
  have p: "matchConfidence (autoMatchPaymentToTenant Map.empty (Some tenants_db) phone_payment) = 100"
    by (simp add: sample_phone_result)
  from h1 sample_no_phone c s1 a b f p show ?thesis
    by blast
qed

text \<open>The claim as written fails: without a phone match the confidence is not always the
  rounded name similarity. No tenant is above the floor here, and the confidence is 0 while
  the rounded similarities are 25, 20 and 20.\<close>

theorem unmatched_confidence_zero:
  "phone_matching stranger_payment (tenants tenants_db) = None \<and>
   matchConfidence (autoMatchPaymentToTenant Map.empty (Some tenants_db) stranger_payment) = 0 \<and>
   Math_round (similarity_to (payerName stranger_payment) (tenants tenants_db ! 0)) = 25 \<and>
   Math_round (similarity_to (payerName stranger_payment) (tenants tenants_db ! 1)) = 20 \<and>
   Math_round (similarity_to (payerName stranger_payment) (tenants tenants_db ! 2)) = 20 \<and>
   length (tenants tenants_db) = 3"
proof -
  have "phone_matching stranger_payment (tenants tenants_db) = None"
    by (simp add: phone_matching_def phone_of_def stranger_payment_def)
  moreover have
    "Math_round (similarity_to (payerName stranger_payment) (tenants tenants_db ! 0)) = 25"
    "Math_round (similarity_to (payerName stranger_payment) (tenants tenants_db ! 1)) = 20"
    "Math_round (similarity_to (payerName stranger_payment) (tenants tenants_db ! 2)) = 20"
    by code_simp+
  moreover have "length (tenants tenants_db) = 3"
    by (simp add: tenants_db_def sample_tenants_def)
  ultimately show ?thesis
    by (simp add: sample_stranger_result)
qed

section \<open>Properties of the feed parser\<close>

lemma feed_blank_name_result:
  "parseCSVPayments feed_blank_name =
     [\<lparr> paymentDate = DateOfText (Some ''2025-01-16''), amount = Finite 1000,
        payerName = ''Jane Smith'', phoneNumber = None, referenceCode = None,
        description = None \<rparr>]"
  by code_simp

lemma feed_negative_result:
  "parseCSVPayments feed_negative =
     [\<lparr> paymentDate = DateOfText (Some ''2025-01-15''), amount = Finite 50000,
        payerName = ''John Doe'', phoneNumber = None, referenceCode = None,
        description = None \<rparr>]"
  by code_simp

lemma feed_no_name_column_result:
  "parseCSVPayments feed_no_name_column =
     [\<lparr> paymentDate = DateOfText (Some ''2025-01-15''), amount = Finite 500,
        payerName = ''Unknown'', phoneNumber = None, referenceCode = None,
        description = None \<rparr>]"
  by code_simp

lemma split_on_no_sep: "sep \<notin> set s \<Longrightarrow> split_on sep s = [s]"
  by (induction s) auto

lemma split_on_nonempty: "split_on sep s \<noteq> []"
  by (induction s) (auto split: list.splits)

lemma parse_line_few_fields:
  "CHR '','' \<notin> set line \<Longrightarrow> parse_line cols line = None"
  by (simp add: parse_line_def split_on_no_sep)

lemma parse_line_amount:
  "parse_line cols line = Some p \<Longrightarrow>
     0 \<le> amountIdx cols \<and>
     amount p = parseFloat (at_index (map trim (split_on CHR '','' line)) (amountIdx cols)) \<and>
     js_gt (amount p) (Finite 0)"
  by (auto simp: parse_line_def Let_def split: if_splits option.splits)

lemma parse_line_name:
  "parse_line cols line = Some p \<Longrightarrow>
     payerName p \<noteq> [] \<and>
     (if nameIdx cols < 0 then payerName p = ''Unknown''
      else at_index (map trim (split_on CHR '','' line)) (nameIdx cols) = Some (payerName p))"
  by (auto simp: parse_line_def Let_def split: if_splits option.splits)

lemma parse_line_blank_name:
  "0 \<le> nameIdx cols \<Longrightarrow>
     at_index (map trim (split_on CHR '','' line)) (nameIdx cols) \<in> {None, Some []} \<Longrightarrow>
     parse_line cols line = None"
  by (auto simp: parse_line_def Let_def split: if_splits option.splits)

lemma parse_line_fields:
  "parse_line cols line = Some p \<Longrightarrow> 2 \<le> length (split_on CHR '','' line)"
  by (auto simp: parse_line_def Let_def split: if_splits option.splits)

lemma parseCSV_set:
  "set (parseCSVPayments csv) =
     (if length (split_on CHR 0x0A (trim csv)) < 2 then {}
      else {p. \<exists>line \<in> set (tl (split_on CHR 0x0A (trim csv))).
              parse_line (header_columns (hd (split_on CHR 0x0A (trim csv)))) line = Some p})"
  by (force simp: parseCSVPayments_def Let_def List.map_filter_def)


text \<open>
  C8, as the code has it. A feed with no line feed after trimming (a header alone) gives
  the empty list. Every payment returned comes from a data line, has an amount strictly
  above zero and a payer name that is not empty. A data line gives no payment when it has
  no comma (fewer than two fields), when there is no amount column or its amount is not
  above zero (negative, zero or not a number), and when the header has a name column but
  the field of the line is blank or missing. The name of a payment is the placeholder
  \<^verbatim>\<open>"Unknown"\<close> exactly when the header has no name column; otherwise it is the field.
\<close>

theorem parse_feed:
  "(CHR 0x0A \<notin> set (trim csv) \<longrightarrow> parseCSVPayments csv = []) \<and>
   (\<forall>p \<in> set (parseCSVPayments csv).
      js_gt (amount p) (Finite 0) \<and> payerName p \<noteq> [] \<and>
      (\<exists>line \<in> set (tl (split_on CHR 0x0A (trim csv))).
         parse_line (header_columns (hd (split_on CHR 0x0A (trim csv)))) line = Some p)) \<and>
   (CHR '','' \<notin> set line \<longrightarrow> parse_line cols line = None) \<and>
   (amountIdx cols < 0 \<or>
    \<not> js_gt (parseFloat (at_index (map trim (split_on CHR '','' line)) (amountIdx cols))) (Finite 0)
      \<longrightarrow> parse_line cols line = None) \<and>
   (0 \<le> nameIdx cols \<and>
    at_index (map trim (split_on CHR '','' line)) (nameIdx cols) \<in> {None, Some []}
      \<longrightarrow> parse_line cols line = None) \<and>
   (\<forall>p. parse_line cols line = Some p \<longrightarrow>
      (if nameIdx cols < 0 then payerName p = ''Unknown''
       else at_index (map trim (split_on CHR '','' line)) (nameIdx cols) = Some (payerName p)))"
proof -
  have a: "parseCSVPayments csv = []" if "CHR 0x0A \<notin> set (trim csv)"
    using that by (simp add: parseCSVPayments_def split_on_no_sep)
  have b: "js_gt (amount p) (Finite 0) \<and> payerName p \<noteq> [] \<and>
      (\<exists>line \<in> set (tl (split_on CHR 0x0A (trim csv))).
         parse_line (header_columns (hd (split_on CHR 0x0A (trim csv)))) line = Some p)"
    if "p \<in> set (parseCSVPayments csv)" for p
  proof -
    from that obtain l where l: "l \<in> set (tl (split_on CHR 0x0A (trim csv)))"
      "parse_line (header_columns (hd (split_on CHR 0x0A (trim csv)))) l = Some p"
      unfolding parseCSV_set by (auto split: if_splits)
    from parse_line_amount[OF l(2)] parse_line_name[OF l(2)] l show ?thesis by blast
  qed
  have c: "parse_line cols line = None"
    if "amountIdx cols < 0 \<or>
        \<not> js_gt (parseFloat (at_index (map trim (split_on CHR '','' line)) (amountIdx cols))) (Finite 0)"
  proof (rule ccontr)
    assume "parse_line cols line \<noteq> None"
    then obtain p where "parse_line cols line = Some p" by auto
    from parse_line_amount[OF this] that show False by auto
  qed
  from a b c parse_line_few_fields[of line cols] parse_line_blank_name[of cols line]
    parse_line_name[of cols line]
  show ?thesis by blast
qed

theorem parse_feed_witness:
  "CHR 0x0A \<notin> set (trim ''Date,Amount,Payer Name'') \<and>
   parseCSVPayments ''Date,Amount,Payer Name'' = [] \<and>
   \<not> js_gt (parseFloat (at_index (map trim (split_on CHR '','' negative_row))
                (amountIdx (header_columns ''Date,Amount,Payer Name'')))) (Finite 0) \<and>
   parse_line (header_columns ''Date,Amount,Payer Name'') negative_row = None \<and>
   parseCSVPayments feed_negative =
     [\<lparr> paymentDate = DateOfText (Some ''2025-01-15''), amount = Finite 50000,
        payerName = ''John Doe'', phoneNumber = None, referenceCode = None,
        description = None \<rparr>] \<and>
   js_gt (Finite 50000) (Finite 0)"
proof -
  have h1: "CHR 0x0A \<notin> set (trim ''Date,Amount,Payer Name'')"
    by code_simp
  have h2: "\<not> js_gt (parseFloat (at_index (map trim (split_on CHR '','' negative_row))
                (amountIdx (header_columns ''Date,Amount,Payer Name'')))) (Finite 0)"
    by code_simp
  from parse_feed[of "''Date,Amount,Payer Name''" negative_row
      "header_columns ''Date,Amount,Payer Name''"] h1 h2
  have "parseCSVPayments ''Date,Amount,Payer Name'' = []"
    "parse_line (header_columns ''Date,Amount,Payer Name'') negative_row = None"
    by blast+
  with h1 h2 feed_negative_result show ?thesis by simp
qed

text \<open>The claim as written fails: with a name column in the header, the row whose name
  field is blank is dropped; it is not kept under the placeholder.\<close>

theorem blank_name_row_dropped:
  "nameIdx (header_columns ''Date,Amount,Payer Name'') = 2 \<and>
   map payerName (parseCSVPayments feed_blank_name) = [''Jane Smith''] \<and>
   map payerName (parseCSVPayments feed_no_name_column) = [''Unknown'']"
proof -
  have "nameIdx (header_columns ''Date,Amount,Payer Name'') = 2"
    by code_simp
  then show ?thesis
    by (simp add: feed_blank_name_result feed_no_name_column_result)
qed

section \<open>Properties of the dates\<close>

lemma DaysInYear_cases: "DaysInYear y = 365 \<or> DaysInYear y = 366"
  by (simp add: DaysInYear_def)

lemma DayFromYear_add_lower: "DayFromYear y + 365 * int k \<le> DayFromYear (y + int k)"
proof (induction k)
  case 0
  then show ?case by simp
next
  case (Suc k)
  have "DayFromYear (y + int (Suc k)) = DayFromYear (y + int k) + DaysInYear (y + int k)"
    using DayFromYear_Suc[of "y + int k"] by (simp add: algebra_simps)
  then show ?case using Suc DaysInYear_cases[of "y + int k"] by auto
qed

lemma DayFromYear_add_upper: "DayFromYear (y + int k) \<le> DayFromYear y + 366 * int k"
proof (induction k)
  case 0
  then show ?case by simp
next
  case (Suc k)
  have "DayFromYear (y + int (Suc k)) = DayFromYear (y + int k) + DaysInYear (y + int k)"
    using DayFromYear_Suc[of "y + int k"] by (simp add: algebra_simps)
  then show ?case using Suc DaysInYear_cases[of "y + int k"] by auto
qed

lemma DayFromYear_mono: "y \<le> y' \<Longrightarrow> DayFromYear y \<le> DayFromYear y'"
  using DayFromYear_add_lower[of y "nat (y' - y)"] by simp

lemma DayFromYear_1970: "DayFromYear 1970 = 0"
  by (simp add: DayFromYear_def)

lemma estimate_above:
  "d < DayFromYear (1970 + (if 0 \<le> d then d div 365 else d div 366) + 1)"
proof (cases "0 \<le> d")
  case True
  define k where "k = nat (d div 365 + 1)"
  have k: "int k = d div 365 + 1" using True by (simp add: k_def)
  have "d < 365 * (d div 365 + 1)" by presburger
  also have "\<dots> \<le> DayFromYear (1970 + int k)"
    using DayFromYear_add_lower[of 1970 k] by (simp add: DayFromYear_1970 k)
  finally show ?thesis using True by (simp add: k algebra_simps)
next
  case False
  define m where "m = nat (- (d div 366) - 1)"
  have "d div 366 \<le> - 1" using False by presburger
  then have m: "int m = - (d div 366) - 1" by (simp add: m_def)
  have "DayFromYear (1970 - int m + int m) \<le> DayFromYear (1970 - int m) + 366 * int m"
    by (rule DayFromYear_add_upper)
  then have "- 366 * int m \<le> DayFromYear (1970 - int m)"
    by (simp add: DayFromYear_1970)
  moreover have "d < 366 * (d div 366 + 1)" by presburger
  ultimately have "d < DayFromYear (1970 - int m)" using m by simp
  moreover have "1970 - int m = 1970 + d div 366 + 1" using m by simp
  ultimately show ?thesis using False by simp
qed

lemma year_down_bounds:
  "d < DayFromYear (y0 + 1) \<Longrightarrow>
     DayFromYear (year_down y0 d) \<le> d \<and> d < DayFromYear (year_down y0 d + 1)"
proof (induction y0 d rule: year_down.induct)
  case (1 y d)
  show ?case
  proof (cases "d < DayFromYear y")
    case True
    then have "year_down y d = year_down (y - 1) d" by (subst year_down.simps) simp
    moreover have "DayFromYear (year_down (y - 1) d) \<le> d \<and>
        d < DayFromYear (year_down (y - 1) d + 1)"
      using 1(1)[OF True] True by simp
    ultimately show ?thesis by simp
  next
    case False
    then have "year_down y d = y" by (subst year_down.simps) simp
    then show ?thesis using False 1(2) by simp
  qed
qed

lemma YearFromDay_bounds:
  "DayFromYear (YearFromDay d) \<le> d \<and> d < DayFromYear (YearFromDay d + 1)"
  unfolding YearFromDay_def by (rule year_down_bounds) (rule estimate_above)

lemma YearFromDay_unique:
  assumes "DayFromYear y \<le> d" "d < DayFromYear (y + 1)"
  shows "YearFromDay d = y"
proof (rule ccontr)
  assume ne: "YearFromDay d \<noteq> y"
  let ?Y = "YearFromDay d"
  from YearFromDay_bounds[of d] have b: "DayFromYear ?Y \<le> d" "d < DayFromYear (?Y + 1)" by auto
  from ne consider "?Y + 1 \<le> y" | "y + 1 \<le> ?Y" by linarith
  then show False
  proof cases
    case 1
    then have "DayFromYear (?Y + 1) \<le> DayFromYear y" by (rule DayFromYear_mono)
    with b(2) assms(1) show False by simp
  next
    case 2
    then have "DayFromYear (y + 1) \<le> DayFromYear ?Y" by (rule DayFromYear_mono)
    with b(1) assms(2) show False by simp
  qed
qed

lemma Day_midnight: "Day (d * msPerDay) = d"
  by (simp add: Day_def msPerDay_def)

lemma Day_midnight_next: "Day (d * msPerDay + msPerDay) = d + 1"
proof -
  have "d * msPerDay + msPerDay = (d + 1) * msPerDay" by (simp add: algebra_simps)
  then show ?thesis by (simp only: Day_midnight)
qed

lemma month_cases:
  fixes mn :: int
  assumes "0 \<le> mn" "mn \<le> 11"
  obtains "mn = 0" | "mn = 1" | "mn = 2" | "mn = 3" | "mn = 4" | "mn = 5" | "mn = 6"
    | "mn = 7" | "mn = 8" | "mn = 9" | "mn = 10" | "mn = 11"
proof -
  from assms have "mn = 0 \<or> mn = 1 \<or> mn = 2 \<or> mn = 3 \<or> mn = 4 \<or> mn = 5 \<or> mn = 6
    \<or> mn = 7 \<or> mn = 8 \<or> mn = 9 \<or> mn = 10 \<or> mn = 11" by presburger
  then show thesis using that by blast
qed

text \<open>The calendar date of a day given by year, month and day of the month.\<close>

lemma civil_of_day:
  assumes mn: "0 \<le> mn" "mn \<le> 11" and dt: "1 \<le> dt" "dt \<le> DaysInMonth y mn"
    and t: "Day t = DayFromYear y + month_start mn (if DaysInYear y = 366 then 1 else 0) + dt - 1"
  shows "YearFromTime t = y \<and> MonthFromTime t = mn \<and> DateFromTime t = dt"
proof -
  define l :: int where "l = (if DaysInYear y = 366 then 1 else 0)"
  have l01: "l = 0 \<or> l = 1" by (simp add: l_def)
  have diy: "DaysInYear y = 365 + l" using DaysInYear_cases[of y] by (auto simp: l_def)
  have within: "0 \<le> month_start mn l + dt - 1 \<and> month_start mn l + dt - 1 < 365 + l"
    using mn
  proof (cases rule: month_cases)
  qed (use dt l01 in \<open>auto simp: month_start_def DaysInMonth_def l_def split: if_splits\<close>)
  have t': "Day t = DayFromYear y + month_start mn l + dt - 1"
    using t by (simp only: l_def)
  have lo: "DayFromYear y \<le> Day t" using within t' by linarith
  have "DayFromYear (y + 1) = DayFromYear y + (365 + l)"
    by (simp only: DayFromYear_Suc diy)
  then have hi: "Day t < DayFromYear (y + 1)" using within t' by linarith
  have yr: "YearFromTime t = y"
    unfolding YearFromTime_def using lo hi by (rule YearFromDay_unique)
  have il: "InLeapYear t = l" by (simp add: InLeapYear_def yr l_def)
  have dwy: "DayWithinYear t = month_start mn l + dt - 1"
    using t' by (simp add: DayWithinYear_def yr)
  have mo: "MonthFromTime t = mn"
    using mn
  proof (cases rule: month_cases)
  qed (use dt l01 in \<open>auto simp: MonthFromTime_def Let_def il dwy month_start_def
         DaysInMonth_def l_def split: if_splits\<close>)
  have "DateFromTime t = dt"
    using mn l01 unfolding DateFromTime_def Let_def il dwy mo
    by (auto simp: month_start_def)
  with yr mo show ?thesis by simp
qed

section \<open>Properties of generation\<close>

lemma sample_clock:
  "YearFromTime (now sample_env) = 2025" "MonthFromTime (now sample_env) = 1"
  by code_simp+

lemma sample_run_eval:
  "(case generateMonthlyInvoices sample_env Map.empty (Some leases_db) of
      (r, dbo) \<Rightarrow> r = Success (2, 2, 1) \<and> map_option pendingInvoices dbo = Some sample_run_rows)"
  by code_simp

lemma sample_run_result:
  "fst (generateMonthlyInvoices sample_env Map.empty (Some leases_db)) = Success (2, 2, 1)"
  using sample_run_eval by (simp split: prod.splits)

lemma sample_run_pending:
  "map_option pendingInvoices (snd (generateMonthlyInvoices sample_env Map.empty (Some leases_db))) =
     Some sample_run_rows"
  using sample_run_eval by (simp split: prod.splits)

lemma sample_run_column:
  "map_option (map f \<circ> pendingInvoices)
     (snd (generateMonthlyInvoices sample_env Map.empty (Some leases_db))) =
   Some (map f sample_run_rows)"
  using sample_run_pending by (auto simp: map_option_case split: option.splits)

lemma sample_run_leases:
  "map_option (map leaseId \<circ> pendingInvoices)
     (snd (generateMonthlyInvoices sample_env Map.empty (Some leases_db))) = Some [1, 3]"
  unfolding sample_run_column by (simp add: sample_run_rows_def)

lemma stored_draft_keeps:
  assumes "stored_draft d = Inr p"
  shows "leaseId p = leaseId d" "generationLogId p = generationLogId d"
    "invoiceNumber p = invoiceNumber d" "periodStart p = periodStart d"
    "periodEnd p = periodEnd d" "dueDate p = dueDate d"
  using assms by (auto simp: stored_draft_def split: sum.splits)

lemma stored_drafts_all2:
  "stored_drafts ds = Inr rows \<Longrightarrow> list_all2 (\<lambda>d p. stored_draft d = Inr p) ds rows"
  by (induction ds arbitrary: rows) (auto split: sum.splits)

lemma stored_drafts_ok:
  "\<forall>d \<in> set ds. \<exists>p. stored_draft d = Inr p \<Longrightarrow> \<exists>rows. stored_drafts ds = Inr rows"
  by (induction ds) (auto split: sum.splits)

lemma length_drafts_for: "length (drafts_for env logId ls) = length ls"
  by (simp add: drafts_for_def)

lemma generate_success_shape:
  assumes "generateMonthlyInvoices env flt (Some db) = (Success (n, k, logId), dbo')"
  shows "\<exists>db' rows. dbo' = Some db' \<and> n = length (active_leases db) \<and> 0 < n \<and>
           k = card (set (map lease_id (active_leases db))) \<and>
           logId = (if insertId_reported env then next_log_id db else 1) \<and>
           stored_drafts (drafts_for env logId (active_leases db)) = Inr rows \<and>
           length rows = n \<and>
           pendingInvoices db' = pendingInvoices db @ rows"
proof -
  have len: "length rows = length ls"
    if "stored_drafts (drafts_for env i ls) = Inr rows" for i ls rows
    using list_all2_lengthD[OF stored_drafts_all2[OF that]] by (simp add: length_drafts_for)
  show ?thesis
    using assms
    by (auto simp: generateMonthlyInvoices_def generation_failed_def insert_log_def
          insert_drafts_def Let_def len length_drafts_for
          split: option.splits if_splits sum.splits)
qed

lemma generate_succeeds:
  assumes "flt 0 = None" "flt 1 = None" "flt 2 = None" "flt 3 = None"
    and "active_leases db \<noteq> []"
    and "stored_drafts (drafts_for env (if insertId_reported env then next_log_id db else 1)
           (active_leases db)) = Inr rows"
  shows "\<exists>db'. generateMonthlyInvoices env flt (Some db) =
           (Success (length (active_leases db), card (set (map lease_id (active_leases db))),
                     if insertId_reported env then next_log_id db else 1), Some db')"
proof -
  show ?thesis
    using assms(1-5)
    by (simp add: generateMonthlyInvoices_def insert_drafts_def Let_def assms(6)
          length_drafts_for)
qed

lemma drafts_for_nth:
  "i < length ls \<Longrightarrow> drafts_for env logId ls ! i = draft_for env logId i (ls ! i)"
  by (simp add: drafts_for_def)

lemma drafts_for_set:
  "p \<in> set (drafts_for env logId ls) \<Longrightarrow> \<exists>i < length ls. p = draft_for env logId i (ls ! i)"
  by (metis drafts_for_nth in_set_conv_nth length_drafts_for)

lemma MonthFromTime_range: "0 \<le> MonthFromTime t \<and> MonthFromTime t \<le> 11"
  by (simp add: MonthFromTime_def Let_def)

lemma DaysInMonth_range: "28 \<le> DaysInMonth y mn \<and> DaysInMonth y mn \<le> 31"
  by (simp add: DaysInMonth_def)

lemma MakeDay_this_month:
  assumes "0 \<le> m" "m \<le> 11"
  shows "MakeDay y m dt =
           DayFromYear y + month_start m (if DaysInYear y = 366 then 1 else 0) + dt - 1"
proof -
  from assms have "m div 12 = 0" "m mod 12 = m" by simp_all
  then show ?thesis by (simp add: MakeDay_def Let_def)
qed

lemma MakeDay_next_month:
  assumes "0 \<le> m" "m \<le> 11"
  shows "MakeDay y (m + 1) dt =
           DayFromYear (if m = 11 then y + 1 else y)
             + month_start ((m + 1) mod 12) (if DaysInYear (if m = 11 then y + 1 else y) = 366 then 1 else 0)
             + dt - 1"
proof (cases "m = 11")
  case True
  then show ?thesis by (simp add: MakeDay_def Let_def)
next
  case False
  with assms have "(m + 1) div 12 = 0" by simp
  then show ?thesis using False by (simp add: MakeDay_def Let_def)
qed

lemma last_day_of_month:
  assumes "0 \<le> m" "m \<le> 11"
  shows "MakeDay y (m + 1) 0 =
           DayFromYear y + month_start m (if DaysInYear y = 366 then 1 else 0) + DaysInMonth y m - 1"
proof (cases "m = 11")
  case True
  have "DayFromYear (y + 1) = DayFromYear y + DaysInYear y" by (rule DayFromYear_Suc)
  then show ?thesis
    using True DaysInYear_cases[of y]
    by (auto simp: MakeDay_def Let_def month_start_def DaysInMonth_def)
next
  case False
  with assms have d: "(m + 1) div 12 = 0" "(m + 1) mod 12 = m + 1" by simp_all
  have "month_start (m + 1) l = month_start m l + DaysInMonth y m"
    if "l = (if DaysInYear y = 366 then 1 else 0)" for l
    using assms
  proof (cases rule: month_cases)
  qed (use False that in \<open>auto simp: month_start_def DaysInMonth_def\<close>)
  then show ?thesis by (simp add: MakeDay_def Let_def d)
qed

lemma new_Date_plain:
  "year < 0 \<or> 99 < year \<Longrightarrow> new_Date year month date = MakeDay year month date * msPerDay"
  by (auto simp: new_Date_def Let_def)

text \<open>The dates of a draft.\<close>

lemma draft_dates:
  fixes env :: gen_env and logId :: int and i :: nat and lease :: Lease
  assumes yr: "YearFromTime (now env) < 0 \<or> 99 < YearFromTime (now env)"
  defines "y \<equiv> YearFromTime (now env)" and "m \<equiv> MonthFromTime (now env)"
  defines "p \<equiv> draft_for env logId i lease"
  shows "YearFromTime (periodStart p) = y \<and> MonthFromTime (periodStart p) = m \<and>
         DateFromTime (periodStart p) = 1 \<and>
         YearFromTime (periodEnd p) = y \<and> MonthFromTime (periodEnd p) = m \<and>
         DateFromTime (periodEnd p) = DaysInMonth y m \<and>
         DateFromTime (periodEnd p + msPerDay) = 1 \<and>
         YearFromTime (dueDate p) = (if m = 11 then y + 1 else y) \<and>
         MonthFromTime (dueDate p) = (m + 1) mod 12 \<and>
         DateFromTime (dueDate p) = 10"
proof -
  have m: "0 \<le> m" "m \<le> 11" using MonthFromTime_range[of "now env"] by (simp_all add: m_def)
  have yr': "y < 0 \<or> 99 < y" using yr by (simp add: y_def)
  have ps: "periodStart p = MakeDay y m 1 * msPerDay"
    and pe: "periodEnd p = MakeDay y (m + 1) 0 * msPerDay"
    and du: "dueDate p = MakeDay y (m + 1) 10 * msPerDay"
    using yr' by (simp_all add: p_def draft_for_def Let_def y_def m_def new_Date_plain)
  define y' where "y' = (if m = 11 then y + 1 else y)"
  define m' where "m' = (m + 1) mod 12"
  have m': "0 \<le> m'" "m' \<le> 11" by (simp_all add: m'_def)
  have dim: "28 \<le> DaysInMonth y m" "DaysInMonth y m \<le> 31" "28 \<le> DaysInMonth y' m'"
    using DaysInMonth_range by simp_all
  have s: "YearFromTime (periodStart p) = y \<and> MonthFromTime (periodStart p) = m \<and>
         DateFromTime (periodStart p) = 1"
    by (rule civil_of_day[OF m])
       (use dim in \<open>simp_all add: ps Day_midnight MakeDay_this_month[OF m]\<close>)
  have e: "YearFromTime (periodEnd p) = y \<and> MonthFromTime (periodEnd p) = m \<and>
         DateFromTime (periodEnd p) = DaysInMonth y m"
    by (rule civil_of_day[OF m])
       (use dim in \<open>simp_all add: pe Day_midnight last_day_of_month[OF m]\<close>)
  have n: "YearFromTime (periodEnd p + msPerDay) = y' \<and> MonthFromTime (periodEnd p + msPerDay) = m' \<and>
         DateFromTime (periodEnd p + msPerDay) = 1"
    by (rule civil_of_day[OF m'])
       (use dim in \<open>simp_all add: pe Day_midnight_next MakeDay_next_month[OF m] y'_def m'_def\<close>)
  have d: "YearFromTime (dueDate p) = y' \<and> MonthFromTime (dueDate p) = m' \<and>
         DateFromTime (dueDate p) = 10"
    by (rule civil_of_day[OF m'])
       (use dim in \<open>simp_all add: du Day_midnight MakeDay_next_month[OF m] y'_def m'_def\<close>)
  from s e n d show ?thesis by (simp add: y'_def m'_def)
qed

text \<open>
  C4. For every run that returns its success object, at a clock whose year is not one of
  0 to 99 (where the Date constructor would read the year as 1900 to 1999): every draft the
  run adds has its period start on day 1 of the month and year of the run, its period end
  in the same month on the day that is the length of that month (28 to 31, February by
  leap year), the day after the period end being a first of the month, and its due date on
  day 10 of the following month, which is January of the next year when the run is in
  December.
\<close>

theorem generated_dates:
  assumes "generateMonthlyInvoices env flt (Some db) = (Success (n, k, logId), Some db')"
    and "YearFromTime (now env) < 0 \<or> 99 < YearFromTime (now env)"
  shows "length (pendingInvoices db') = length (pendingInvoices db) + n \<and>
         (\<forall>p \<in> set (drop (length (pendingInvoices db)) (pendingInvoices db')).
            YearFromTime (periodStart p) = YearFromTime (now env) \<and>
            MonthFromTime (periodStart p) = MonthFromTime (now env) \<and>
            DateFromTime (periodStart p) = 1 \<and>
            YearFromTime (periodEnd p) = YearFromTime (now env) \<and>
            MonthFromTime (periodEnd p) = MonthFromTime (now env) \<and>
            DateFromTime (periodEnd p) = DaysInMonth (YearFromTime (now env)) (MonthFromTime (now env)) \<and>
            28 \<le> DateFromTime (periodEnd p) \<and> DateFromTime (periodEnd p) \<le> 31 \<and>
            DateFromTime (periodEnd p + msPerDay) = 1 \<and>
            YearFromTime (dueDate p) =
              (if MonthFromTime (now env) = 11 then YearFromTime (now env) + 1
               else YearFromTime (now env)) \<and>
            MonthFromTime (dueDate p) = (MonthFromTime (now env) + 1) mod 12 \<and>
            DateFromTime (dueDate p) = 10)"
proof -
  from generate_success_shape[OF assms(1)]
  obtain rows where n: "n = length (active_leases db)"
    and st: "stored_drafts (drafts_for env logId (active_leases db)) = Inr rows"
    and ln: "length rows = n"
    and pend: "pendingInvoices db' = pendingInvoices db @ rows"
    by auto
  have len: "length (pendingInvoices db') = length (pendingInvoices db) + n"
    by (simp add: pend ln)
  have dr: "drop (length (pendingInvoices db)) (pendingInvoices db') = rows"
    by (simp add: pend)
  have "YearFromTime (periodStart p) = YearFromTime (now env) \<and>
            MonthFromTime (periodStart p) = MonthFromTime (now env) \<and>
            DateFromTime (periodStart p) = 1 \<and>
            YearFromTime (periodEnd p) = YearFromTime (now env) \<and>
            MonthFromTime (periodEnd p) = MonthFromTime (now env) \<and>
            DateFromTime (periodEnd p) = DaysInMonth (YearFromTime (now env)) (MonthFromTime (now env)) \<and>
            28 \<le> DateFromTime (periodEnd p) \<and> DateFromTime (periodEnd p) \<le> 31 \<and>
            DateFromTime (periodEnd p + msPerDay) = 1 \<and>
            YearFromTime (dueDate p) =
              (if MonthFromTime (now env) = 11 then YearFromTime (now env) + 1
               else YearFromTime (now env)) \<and>
            MonthFromTime (dueDate p) = (MonthFromTime (now env) + 1) mod 12 \<and>
            DateFromTime (dueDate p) = 10"
    if "p \<in> set (drop (length (pendingInvoices db)) (pendingInvoices db'))" for p
  proof -
    from that have "p \<in> set rows" unfolding dr .
    then obtain j where j: "j < length rows" "p = rows ! j"
      by (auto simp: in_set_conv_nth)
    define d where "d = drafts_for env logId (active_leases db) ! j"
    from stored_drafts_all2[OF st] j
    have d: "d \<in> set (drafts_for env logId (active_leases db))" "stored_draft d = Inr p"
      by (simp_all add: list_all2_conv_all_nth d_def)
    from d(1) obtain i where "d = draft_for env logId i (active_leases db ! i)"
      using drafts_for_set by blast
    then show ?thesis
      using draft_dates[OF assms(2), of logId i "active_leases db ! i"]
        DaysInMonth_range[of "YearFromTime (now env)" "MonthFromTime (now env)"]
        stored_draft_keeps(4,5,6)[OF d(2)]
      by simp
  qed
  with len show ?thesis by blast
qed

text \<open>The drafts as the table keeps them.\<close>

lemma draft_for_ids:
  "leaseId (draft_for env logId i l) = lease_id l"
  "generationLogId (draft_for env logId i l) = logId"
  by (simp_all add: draft_for_def Let_def)

lemma stored_draft_for:
  assumes "monthlyRent l = decimal_text r" "serviceCharge l = decimal_text s"
    and "\<bar>r\<bar> < 10 ^ 10" "\<bar>s\<bar> < 10 ^ 10"
  shows "stored_draft (draft_for env logId i l) =
           (if \<bar>r + s\<bar> < 10 ^ 10
            then Inr ((draft_for env logId i l)
                   \<lparr>rentAmount := Str (decimal_text r), serviceChargeAmount := Str (decimal_text s),
                    utilitiesAmount := Str ''0.00'', totalAmount := Str (decimal_text (r + s))\<rparr>)
            else Inl ''Out of range value'')"
proof -
  let ?d = "draft_for env logId i l"
  have f: "rentAmount ?d = NumberToString (parseFloat (Some (decimal_text r)))"
    "serviceChargeAmount ?d = NumberToString (parseFloat (Some (decimal_text s)))"
    "utilitiesAmount ?d = NumberToString (Finite 0)"
    "totalAmount ?d =
       NumberToString (js_add (js_add (parseFloat (Some (decimal_text r)))
                                      (parseFloat (Some (decimal_text s)))) (Finite 0))"
    by (simp_all add: draft_for_def Let_def assms(1,2))
  show ?thesis
    unfolding stored_draft_def f
    by (simp add: kept_column_value[OF assms(3)] kept_column_value[OF assms(4)]
          amount_column_zero kept_total[OF assms(3,4)])
qed

lemma stored_exact:
  assumes "stored_draft (draft_for env logId i l) = Inr p"
  shows "draft_of_lease logId l p \<and> exact_amounts l p"
proof -
  have "draft_of_lease logId l p"
    using stored_draft_keeps(1,2)[OF assms] by (simp add: draft_of_lease_def draft_for_ids)
  moreover have "rentAmount p = Str (decimal_text r) \<and>
        serviceChargeAmount p = Str (decimal_text s) \<and>
        utilitiesAmount p = Str ''0.00'' \<and>
        totalAmount p = Str (decimal_text (r + s))"
    if h: "monthlyRent l = decimal_text r \<and> serviceCharge l = decimal_text s \<and>
           \<bar>r\<bar> < 10 ^ 10 \<and> \<bar>s\<bar> < 10 ^ 10" for r s
  proof -
    from h have "stored_draft (draft_for env logId i l) =
           (if \<bar>r + s\<bar> < 10 ^ 10
            then Inr ((draft_for env logId i l)
                   \<lparr>rentAmount := Str (decimal_text r), serviceChargeAmount := Str (decimal_text s),
                    utilitiesAmount := Str ''0.00'', totalAmount := Str (decimal_text (r + s))\<rparr>)
            else Inl ''Out of range value'')"
      by (intro stored_draft_for) simp_all
    with assms have "p = (draft_for env logId i l)
                   \<lparr>rentAmount := Str (decimal_text r), serviceChargeAmount := Str (decimal_text s),
                    utilitiesAmount := Str ''0.00'', totalAmount := Str (decimal_text (r + s))\<rparr>"
      by (simp split: if_splits)
    then show ?thesis by simp
  qed
  ultimately show ?thesis unfolding exact_amounts_def by blast
qed

lemma stored_billable:
  assumes "billable l"
  shows "\<exists>p. stored_draft (draft_for env logId i l) = Inr p"
proof -
  from assms obtain r s where h: "monthlyRent l = decimal_text r" "serviceCharge l = decimal_text s"
    "\<bar>r\<bar> < 10 ^ 10" "\<bar>s\<bar> < 10 ^ 10" "\<bar>r + s\<bar> < 10 ^ 10"
    unfolding billable_def by blast
  from stored_draft_for[OF h(1-4), of env logId i] h(5) show ?thesis by simp
qed

text \<open>
  C1. A run that returns its success object adds exactly one draft per active lease, in
  the order of the leases, tagged with the log id and carrying the lease id. When the rent
  and the service charge of the lease are values of their \<^verbatim>\<open>decimal(10,2)\<close> columns, the
  draft is stored with these two amounts, utilities \<^verbatim>\<open>0.00\<close> and as total their exact sum,
  a decimal with two fraction digits: the rounding error of the binary64 sum the code
  computes is far below half a hundredth and is gone once the column has rounded the text
  of the sum. And the run does return its success object when no statement throws, there
  is an active lease, and for every active lease the two amounts and their sum are values
  of the column.
\<close>

theorem generated_drafts:
  "(\<forall>n k logId db'.
      generateMonthlyInvoices env flt (Some db) = (Success (n, k, logId), Some db') \<longrightarrow>
        (\<exists>created. pendingInvoices db' = pendingInvoices db @ created \<and>
           n = length created \<and> n = length (active_leases db) \<and>
           list_all2 (\<lambda>l p. draft_of_lease logId l p \<and> exact_amounts l p)
             (active_leases db) created)) \<and>
   (flt 0 = None \<and> flt 1 = None \<and> flt 2 = None \<and> flt 3 = None \<and>
    active_leases db \<noteq> [] \<and> (\<forall>l \<in> set (active_leases db). billable l) \<longrightarrow>
      (\<exists>k logId db'.
         generateMonthlyInvoices env flt (Some db) =
           (Success (length (active_leases db), k, logId), Some db')))"
proof (intro conjI allI impI)
  fix n k logId db'
  assume run: "generateMonthlyInvoices env flt (Some db) = (Success (n, k, logId), Some db')"
  from generate_success_shape[OF run]
  obtain rows where n: "n = length (active_leases db)"
    and st: "stored_drafts (drafts_for env logId (active_leases db)) = Inr rows"
    and ln: "length rows = n"
    and pend: "pendingInvoices db' = pendingInvoices db @ rows"
    by auto
  have "draft_of_lease logId (active_leases db ! i) (rows ! i) \<and>
        exact_amounts (active_leases db ! i) (rows ! i)"
    if "i < length (active_leases db)" for i
  proof -
    from stored_drafts_all2[OF st] that
    have "stored_draft (drafts_for env logId (active_leases db) ! i) = Inr (rows ! i)"
      by (simp add: list_all2_conv_all_nth length_drafts_for)
    then have "stored_draft (draft_for env logId i (active_leases db ! i)) = Inr (rows ! i)"
      using that by (simp add: drafts_for_nth)
    then show ?thesis by (rule stored_exact)
  qed
  then have "list_all2 (\<lambda>l p. draft_of_lease logId l p \<and> exact_amounts l p)
      (active_leases db) rows"
    using ln n by (simp add: list_all2_conv_all_nth)
  with pend ln n
  show "\<exists>created. pendingInvoices db' = pendingInvoices db @ created \<and>
           n = length created \<and> n = length (active_leases db) \<and>
           list_all2 (\<lambda>l p. draft_of_lease logId l p \<and> exact_amounts l p)
             (active_leases db) created"
    by auto
next
  assume h: "flt 0 = None \<and> flt 1 = None \<and> flt 2 = None \<and> flt 3 = None \<and>
    active_leases db \<noteq> [] \<and> (\<forall>l \<in> set (active_leases db). billable l)"
  define logId where "logId = (if insertId_reported env then next_log_id db else 1)"
  have "\<exists>p. stored_draft d = Inr p"
    if "d \<in> set (drafts_for env logId (active_leases db))" for d
  proof -
    from that obtain i where i: "i < length (active_leases db)"
      "d = draft_for env logId i (active_leases db ! i)"
      using drafts_for_set by blast
    with h have "billable (active_leases db ! i)" by simp
    then show ?thesis unfolding i(2) by (rule stored_billable)
  qed
  then obtain rows where "stored_drafts (drafts_for env logId (active_leases db)) = Inr rows"
    using stored_drafts_ok by blast
  with h generate_succeeds[of flt db env rows]
  show "\<exists>k logId db'.
         generateMonthlyInvoices env flt (Some db) =
           (Success (length (active_leases db), k, logId), Some db')"
    unfolding logId_def by blast
qed

lemma sample_run_totals:
  "map_option (map totalAmount \<circ> pendingInvoices)
     (snd (generateMonthlyInvoices sample_env Map.empty (Some leases_db))) =
   Some [Str ''10500.00'', Str ''0.30'']"
  unfolding sample_run_column by (simp add: sample_run_rows_def)

lemma sample_run_dates:
  "map_option (map periodStart \<circ> pendingInvoices)
     (snd (generateMonthlyInvoices sample_env Map.empty (Some leases_db))) =
   Some [1738368000000, 1738368000000]"
  "map_option (map periodEnd \<circ> pendingInvoices)
     (snd (generateMonthlyInvoices sample_env Map.empty (Some leases_db))) =
   Some [1740700800000, 1740700800000]"
  "map_option (map dueDate \<circ> pendingInvoices)
     (snd (generateMonthlyInvoices sample_env Map.empty (Some leases_db))) =
   Some [1741564800000, 1741564800000]"
  unfolding sample_run_column by (simp_all add: sample_run_rows_def)

lemma sample_run_numbers:
  "map_option (map invoiceNumber \<circ> pendingInvoices)
     (snd (generateMonthlyInvoices sample_env Map.empty (Some leases_db))) =
   Some [''INV-202502-V1STGX'', ''INV-202502-X_9-AB'']"
  unfolding sample_run_column by (simp add: sample_run_rows_def)

lemma sample_run:
  "\<exists>db'. generateMonthlyInvoices sample_env Map.empty (Some leases_db) =
           (Success (2, 2, 1), Some db')"
proof -
  obtain dbo where r: "generateMonthlyInvoices sample_env Map.empty (Some leases_db) =
      (Success (2, 2, 1), dbo)"
    using sample_run_result by (metis prod.collapse)
  from generate_success_shape[OF r] r show ?thesis by blast
qed

lemma sample_texts:
  "decimal_text 10 = ''0.10''" "decimal_text 20 = ''0.20''" "decimal_text (10 + 20) = ''0.30''"
  "decimal_text 1000000 = ''10000.00''" "decimal_text 50000 = ''500.00''"
  by code_simp+

lemma sample_active: "active_leases leases_db = [sample_leases ! 0, sample_leases ! 2]"
  by (simp add: active_leases_def leases_db_def sample_leases_def)

theorem generated_drafts_witness:
  "active_leases leases_db = [sample_leases ! 0, sample_leases ! 2] \<and>
   billable (sample_leases ! 0) \<and> billable (sample_leases ! 2) \<and>
   monthlyRent (sample_leases ! 2) = decimal_text 10 \<and>
   serviceCharge (sample_leases ! 2) = decimal_text 20 \<and>
   fst (generateMonthlyInvoices sample_env Map.empty (Some leases_db)) = Success (2, 2, 1) \<and>
   map_option (map leaseId \<circ> pendingInvoices)
     (snd (generateMonthlyInvoices sample_env Map.empty (Some leases_db))) = Some [1, 3] \<and>
   map_option (map totalAmount \<circ> pendingInvoices)
     (snd (generateMonthlyInvoices sample_env Map.empty (Some leases_db))) =
     Some [Str ''10500.00'', Str ''0.30''] \<and>
   Str ''0.30'' = Str (decimal_text (10 + 20))"
proof -
  have lit: "monthlyRent (sample_leases ! 2) = decimal_text 10"
    "serviceCharge (sample_leases ! 2) = decimal_text 20"
    by (simp_all add: sample_leases_def sample_texts)
  have lit0: "monthlyRent (sample_leases ! 0) = decimal_text 1000000"
    "serviceCharge (sample_leases ! 0) = decimal_text 50000"
    by (simp_all add: sample_leases_def sample_texts)
  have b2: "billable (sample_leases ! 2)"
    unfolding billable_def using lit by (intro exI[of _ 10] exI[of _ 20]) simp
  have b0: "billable (sample_leases ! 0)"
    unfolding billable_def using lit0 by (intro exI[of _ 1000000] exI[of _ 50000]) simp
  have all: "\<forall>l \<in> set (active_leases leases_db). billable l"
    unfolding sample_active using b0 b2 by simp
  note inst = generated_drafts[of sample_env Map.empty leases_db]
  from inst all obtain k logId db' where run0:
    "generateMonthlyInvoices sample_env Map.empty (Some leases_db) =
       (Success (length (active_leases leases_db), k, logId), Some db')"
    unfolding sample_active by auto
  with sample_run_result have run:
    "generateMonthlyInvoices sample_env Map.empty (Some leases_db) = (Success (2, 2, 1), Some db')"
    by simp
  from inst run obtain created where c:
    "pendingInvoices db' = pendingInvoices leases_db @ created"
    "list_all2 (\<lambda>l p. draft_of_lease 1 l p \<and> exact_amounts l p) (active_leases leases_db) created"
    by blast
  from c(2) obtain p0 p1 where created: "created = [p0, p1]"
    and p1: "exact_amounts (sample_leases ! 2) p1"
    unfolding sample_active by (auto simp: list_all2_Cons1)
  have t1: "totalAmount p1 = Str (decimal_text (10 + 20))"
    using p1[unfolded exact_amounts_def, rule_format, of 10 20] lit by simp
  have tot: "map totalAmount (pendingInvoices db') = [Str ''10500.00'', Str ''0.30'']"
    using sample_run_totals unfolding run by simp
  have "pendingInvoices db' = [p0, p1]" using c(1) created by (simp add: leases_db_def)
  with tot have "totalAmount p1 = Str ''0.30''" by simp
  with t1 have "Str ''0.30'' = Str (decimal_text (10 + 20))" by simp
  with sample_active b0 b2 lit sample_run_result sample_run_leases sample_run_totals
  show ?thesis by blast
qed

theorem generated_dates_witness:
  "fst (generateMonthlyInvoices sample_env Map.empty (Some leases_db)) = Success (2, 2, 1) \<and>
   YearFromTime (now sample_env) = 2025 \<and> MonthFromTime (now sample_env) = 1 \<and>
   map_option (map periodStart \<circ> pendingInvoices)
     (snd (generateMonthlyInvoices sample_env Map.empty (Some leases_db))) =
     Some [1738368000000, 1738368000000] \<and>
   map_option (map periodEnd \<circ> pendingInvoices)
     (snd (generateMonthlyInvoices sample_env Map.empty (Some leases_db))) =
     Some [1740700800000, 1740700800000] \<and>
   map_option (map dueDate \<circ> pendingInvoices)
     (snd (generateMonthlyInvoices sample_env Map.empty (Some leases_db))) =
     Some [1741564800000, 1741564800000] \<and>
   DateFromTime 1738368000000 = 1 \<and> MonthFromTime 1738368000000 = 1 \<and>
   DateFromTime 1740700800000 = 28 \<and> MonthFromTime 1740700800000 = 1 \<and>
   DateFromTime (1740700800000 + msPerDay) = 1 \<and>
   YearFromTime 1741564800000 = 2025 \<and> MonthFromTime 1741564800000 = 2 \<and>
   DateFromTime 1741564800000 = 10"
proof -
  from sample_run obtain db' where run:
    "generateMonthlyInvoices sample_env Map.empty (Some leases_db) = (Success (2, 2, 1), Some db')"
    by blast
  have yr: "YearFromTime (now sample_env) < 0 \<or> 99 < YearFromTime (now sample_env)"
    by (simp add: sample_clock)
  have empty: "length (pendingInvoices leases_db) = 0" by (simp add: leases_db_def)
  from sample_run_dates obtain p0 p1 where ps: "pendingInvoices db' = [p0, p1]"
    and d: "periodStart p0 = 1738368000000" "periodEnd p0 = 1740700800000"
      "dueDate p0 = 1741564800000"
    unfolding run by (auto simp: map_eq_Cons_conv)
  have dim: "DaysInMonth 2025 1 = 28" by (simp add: DaysInMonth_def DaysInYear_def)
  from generated_dates[OF run yr] have
    "\<forall>p \<in> set (pendingInvoices db').
        MonthFromTime (periodStart p) = 1 \<and> DateFromTime (periodStart p) = 1 \<and>
        MonthFromTime (periodEnd p) = 1 \<and> DateFromTime (periodEnd p) = 28 \<and>
        DateFromTime (periodEnd p + msPerDay) = 1 \<and>
        YearFromTime (dueDate p) = 2025 \<and> MonthFromTime (dueDate p) = 2 \<and>
        DateFromTime (dueDate p) = 10"
    unfolding empty sample_clock dim by simp
  then have "MonthFromTime (periodStart p0) = 1 \<and> DateFromTime (periodStart p0) = 1 \<and>
        MonthFromTime (periodEnd p0) = 1 \<and> DateFromTime (periodEnd p0) = 28 \<and>
        DateFromTime (periodEnd p0 + msPerDay) = 1 \<and>
        YearFromTime (dueDate p0) = 2025 \<and> MonthFromTime (dueDate p0) = 2 \<and>
        DateFromTime (dueDate p0) = 10"
    by (simp add: ps)
  then show ?thesis
    unfolding d using sample_run_result sample_clock sample_run_dates by simp
qed

text \<open>
  C9. The invoice number is \<^verbatim>\<open>INV-\<close>, the year, the month padded to two digits, a
  hyphen and the upper-cased identifier of \<^verbatim>\<open>nanoid(6)\<close>. The identifier is drawn from
  an alphabet that has underscore and hyphen in it, so the suffix is not always
  alphanumeric: in the sample run the second draft is numbered
  \<^verbatim>\<open>INV-202502-X_9-AB\<close>, which the contract (and the pattern in the repository's own
  test) does not match.
\<close>

theorem invoice_number_contract_broken:
  "is_nanoid 6 ''x_9-Ab'' \<and>
   map_option (map invoiceNumber \<circ> pendingInvoices)
     (snd (generateMonthlyInvoices sample_env Map.empty (Some leases_db))) =
     Some [''INV-202502-V1STGX'', ''INV-202502-X_9-AB''] \<and>
   matches_contract ''INV-202502-V1STGX'' \<and>
   \<not> matches_contract ''INV-202502-X_9-AB''"
proof -
  have "is_nanoid 6 ''x_9-Ab''" by code_simp
  moreover have "matches_contract ''INV-202502-V1STGX''" by code_simp
  moreover have "\<not> matches_contract ''INV-202502-X_9-AB''" by code_simp
  ultimately show ?thesis using sample_run_numbers by simp
qed

end
